theory Spec2Isabelle
  imports Main "HOL-Library.Word"
begin

unbundle bit_operations_syntax

section \<open>Data model\<close>

text \<open>
  The package \<open>argon2id\<close> (file \<open>argon2id.go\<close>) wraps four library facilities: the key
  derivation \<open>argon2.IDKey\<close>, the codec \<open>base64.RawURLEncoding\<close>, the formatted input and
  output of \<open>fmt\<close> (\<open>Sprintf\<close>, \<open>Sscanf\<close>) and \<open>subtle.ConstantTimeCompare\<close>. A Go
  \<open>string\<close> is a sequence of bytes and is modelled as \<open>string\<close>; a \<open>[]byte\<close> is a list of
  8-bit words; \<open>uint32\<close> and \<open>uint8\<close> are words of that width; the \<open>int\<close> that holds the
  version is an integer whose range (64 bits) is checked where the scanner checks it.
\<close>

type_synonym byte = "8 word"

text \<open>
  The package's error values, followed by the two kinds of error of the libraries that
  \<open>VerifyPassword\<close> hands on unchanged: a scanning error of \<open>fmt.Sscanf\<close> and
  \<open>base64.CorruptInputError\<close>.
\<close>

datatype scan_error =
    UnexpectedEOF
  | EOF
  | InputDoesNotMatchFormat
  | UnexpectedNewline
  | ExpectedInteger
  | InvalidSyntax
  | ValueOutOfRange
  | IntegerOverflow

datatype error =
    ErrPasswordRequired
  | ErrSaltRequired
  | ErrArgon2KeyRequired
  | ErrInvalidKeyLength
  | ErrArgonVersionMismatch
  | ErrHashNotEqualPassword
  | ScanError scan_error
  | CorruptInputError

record Options =
  Time :: "32 word"
  Memory :: "32 word"
  Threads :: "8 word"
  KeyLen :: "32 word"

definition DefaultOptions :: Options where
  "DefaultOptions = \<lparr> Time = 1, Memory = 64 * 1024, Threads = 4, KeyLen = 32 \<rparr>"

text \<open>\<open>argon2.Version\<close> is the constant \<open>0x13\<close>.\<close>

definition Version :: int where
  "Version = 0x13"

text \<open>\<open>[]byte(s)\<close> for a string \<open>s\<close>: the bytes of the string.\<close>

definition bytes :: "string \<Rightarrow> byte list" where
  "bytes s = map of_char s"

section \<open>The codec: \<open>base64.RawURLEncoding\<close>\<close>

text \<open>
  The URL-safe alphabet, without padding and without strict checking of the trailing
  bits. \<open>encode\<close> is the table \<open>enc.encode\<close>; \<open>decodeMap\<close> is its inverse table, with
  \<open>0xFF\<close> for every byte outside the alphabet.
\<close>

definition encodeURL :: string where
  "encodeURL = ''ABCDEFGHIJKLMNOPQRSTUVWXYZabcdefghijklmnopqrstuvwxyz0123456789-_''"

definition encode :: "32 word \<Rightarrow> char" where
  "encode i = encodeURL ! unat i"

fun index_of :: "char \<Rightarrow> string \<Rightarrow> nat" where
  "index_of c [] = 0"
| "index_of c (x # xs) = (if c = x then 0 else Suc (index_of c xs))"

definition decodeMap :: "char \<Rightarrow> byte" where
  "decodeMap c = (if c \<in> set encodeURL then of_nat (index_of c encodeURL) else 0xFF)"

text \<open>
  \<open>Encoding.Encode\<close>: three bytes give four characters; a last block of two bytes gives
  three characters and one of a single byte gives two, with no padding character.
\<close>

fun EncodeToString :: "byte list \<Rightarrow> string" where
  "EncodeToString (b0 # b1 # b2 # src) =
     (let val = push_bit 16 (ucast b0) OR push_bit 8 (ucast b1) OR ucast b2 :: 32 word
      in encode (drop_bit 18 val AND 0x3F) # encode (drop_bit 12 val AND 0x3F) #
         encode (drop_bit 6 val AND 0x3F) # encode (val AND 0x3F) # EncodeToString src)"
| "EncodeToString [b0, b1] =
     (let val = push_bit 16 (ucast b0) OR push_bit 8 (ucast b1) :: 32 word
      in [encode (drop_bit 18 val AND 0x3F), encode (drop_bit 12 val AND 0x3F),
          encode (drop_bit 6 val AND 0x3F)])"
| "EncodeToString [b0] =
     (let val = push_bit 16 (ucast b0) :: 32 word
      in [encode (drop_bit 18 val AND 0x3F), encode (drop_bit 12 val AND 0x3F)])"
| "EncodeToString [] = []"

text \<open>
  The end of \<open>decodeQuantum\<close>: the \<open>dlen\<close> six-bit values collected in \<open>dbuf\<close> (the rest
  of the four-entry buffer is zero) are packed into \<open>val\<close> and give \<open>dlen - 1\<close> bytes.
\<close>

definition assemble :: "byte list \<Rightarrow> byte list" where
  "assemble dbuf =
     (let d = (\<lambda>j. if j < length dbuf then ucast (dbuf ! j) else 0 :: 32 word);
          val = push_bit 18 (d 0) OR push_bit 12 (d 1) OR push_bit 6 (d 2) OR d 3
      in take (length dbuf - 1) [ucast (drop_bit 16 val), ucast (drop_bit 8 val), ucast val])"

text \<open>
  \<open>Encoding.Decode\<close> with \<open>decodeQuantum\<close>, as one loop over the input: \<open>dbuf\<close> holds
  the values of the current quantum (\<open>j\<close> is its length). A character of the alphabet
  is stored, and the fourth one closes the quantum; carriage return and line feed are
  skipped; any other character is corrupt input (there is no padding character). At
  the end of the input an empty quantum ends the decoding, a quantum of one character is
  corrupt, and a quantum of two or three characters gives one or two bytes.
\<close>

fun decode :: "byte list \<Rightarrow> string \<Rightarrow> error + byte list" where
  "decode dbuf [] =
     (if length dbuf = 0 then Inr []
      else if length dbuf = 1 then Inl CorruptInputError
      else Inr (assemble dbuf))"
| "decode dbuf (c # src) =
     (let out = decodeMap c in
      if out \<noteq> 0xFF then
        (if length dbuf = 3 then
           (case decode [] src of
              Inl e \<Rightarrow> Inl e
            | Inr dst \<Rightarrow> Inr (assemble (dbuf @ [out]) @ dst))
         else decode (dbuf @ [out]) src)
      else if c = CHR 0x0A \<or> c = CHR 0x0D then decode dbuf src
      else Inl CorruptInputError)"

definition DecodeString :: "string \<Rightarrow> error + byte list" where
  "DecodeString s = decode [] s"

text \<open>The two helper functions of the package.\<close>

definition EncodeToBase64String :: "byte list \<Rightarrow> string" where
  "EncodeToBase64String b = EncodeToString b"

definition DecodeBase64String :: "string \<Rightarrow> error + byte list" where
  "DecodeBase64String s = DecodeString s"


section \<open>\<open>strings.Split\<close> with a separator of one byte\<close>

text \<open>
  \<open>strings.Split(s, sep)\<close> cuts \<open>s\<close> at every occurrence of \<open>sep\<close>; \<open>n\<close> occurrences
  give \<open>n + 1\<close> substrings, some of which may be empty. \<open>cur\<close> is the substring being
  read.
\<close>

fun genSplit :: "char \<Rightarrow> string \<Rightarrow> string \<Rightarrow> string list" where
  "genSplit sep cur [] = [cur]"
| "genSplit sep cur (c # s) =
     (if c = sep then cur # genSplit sep [] s else genSplit sep (cur @ [c]) s)"

definition Split :: "string \<Rightarrow> char \<Rightarrow> string list" where
  "Split s sep = genSplit sep [] s"

section \<open>\<open>fmt.Sprintf\<close>: the verb \<open>%d\<close>\<close>

text \<open>
  \<open>fmtInteger\<close> in base 10 writes the digits of an unsigned value from the least
  significant one; a negative signed value is written as \<open>-\<close> and its magnitude.
\<close>

definition digit :: "nat \<Rightarrow> char" where
  "digit u = char_of (of_char (CHR ''0'') + u)"

fun fmtInteger :: "nat \<Rightarrow> string" where
  "fmtInteger u = (if u \<ge> 10 then fmtInteger (u div 10) @ [digit (u mod 10)] else [digit u])"

declare fmtInteger.simps [simp del]

definition fmt_d :: "int \<Rightarrow> string" where
  "fmt_d i = (if i < 0 then CHR ''-'' # fmtInteger (nat (- i)) else fmtInteger (nat i))"

section \<open>\<open>fmt.Sscanf\<close>: literal text and the verb \<open>%d\<close>\<close>

text \<open>
  The scanner reads its input rune by rune. \<open>DecodeRune\<close> is UTF-8 decoding as in
  \<open>unicode/utf8\<close>: the rune and the number of bytes it takes; a byte that starts no
  valid encoding is the rune \<open>RuneError\<close> of width 1. Runes are natural numbers
  here, so the decoder's masks and shifts are written as \<open>mod\<close> and multiplication.
\<close>

definition RuneError :: nat where
  "RuneError = 0xFFFD"

definition in_range :: "nat \<Rightarrow> nat \<Rightarrow> char \<Rightarrow> bool" where
  "in_range lo hi c = (lo \<le> of_char c \<and> of_char c \<le> hi)"

definition accept_lo :: "nat \<Rightarrow> nat" where
  "accept_lo p0 = (if p0 = 0xE0 then 0xA0 else if p0 = 0xF0 then 0x90 else 0x80)"

definition accept_hi :: "nat \<Rightarrow> nat" where
  "accept_hi p0 = (if p0 = 0xED then 0x9F else if p0 = 0xF4 then 0x8F else 0xBF)"

fun DecodeRune :: "string \<Rightarrow> nat \<times> nat" where
  "DecodeRune [] = (RuneError, 0)"
| "DecodeRune (c0 # s) =
     (let p0 = of_char c0 :: nat in
      if p0 < 0x80 then (p0, 1)
      else if 0xC2 \<le> p0 \<and> p0 \<le> 0xDF then
        (case s of
           c1 # _ \<Rightarrow>
             if in_range 0x80 0xBF c1
             then ((p0 mod 0x20) * 0x40 + of_char c1 mod 0x40, 2)
             else (RuneError, 1)
         | _ \<Rightarrow> (RuneError, 1))
      else if 0xE0 \<le> p0 \<and> p0 \<le> 0xEF then
        (case s of
           c1 # c2 # _ \<Rightarrow>
             if in_range (accept_lo p0) (accept_hi p0) c1 \<and> in_range 0x80 0xBF c2
             then ((p0 mod 0x10) * 0x1000 + (of_char c1 mod 0x40) * 0x40 +
                   of_char c2 mod 0x40, 3)
             else (RuneError, 1)
         | _ \<Rightarrow> (RuneError, 1))
      else if 0xF0 \<le> p0 \<and> p0 \<le> 0xF4 then
        (case s of
           c1 # c2 # c3 # _ \<Rightarrow>
             if in_range (accept_lo p0) (accept_hi p0) c1 \<and> in_range 0x80 0xBF c2 \<and>
                in_range 0x80 0xBF c3
             then ((p0 mod 0x08) * 0x40000 + (of_char c1 mod 0x40) * 0x1000 +
                   (of_char c2 mod 0x40) * 0x40 + of_char c3 mod 0x40, 4)
             else (RuneError, 1)
         | _ \<Rightarrow> (RuneError, 1))
      else (RuneError, 1))"

text \<open>\<open>getRune\<close>: the next rune and the rest of the input, or \<open>None\<close> at its end.\<close>

definition getRune :: "string \<Rightarrow> (nat \<times> string) option" where
  "getRune s = (if s = [] then None else Some (fst (DecodeRune s), drop (snd (DecodeRune s)) s))"

text \<open>The table \<open>space\<close> of \<open>fmt\<close> and its lookup \<open>isSpace\<close>.\<close>

definition space :: "(nat \<times> nat) list" where
  "space = [(0x0009, 0x000D), (0x0020, 0x0020), (0x0085, 0x0085), (0x00A0, 0x00A0),
            (0x1680, 0x1680), (0x2000, 0x200A), (0x2028, 0x2029), (0x202F, 0x202F),
            (0x205F, 0x205F), (0x3000, 0x3000)]"

fun in_table :: "nat \<Rightarrow> (nat \<times> nat) list \<Rightarrow> bool" where
  "in_table rx [] = False"
| "in_table rx (rng # rest) =
     (if rx < fst rng then False else if rx \<le> snd rng then True else in_table rx rest)"

definition isSpace :: "nat \<Rightarrow> bool" where
  "isSpace r = (if r \<ge> 0x10000 then False else in_table r space)"

definition runes :: "string \<Rightarrow> nat list" where
  "runes ok = map of_char ok"

definition decimalDigits :: "nat list" where
  "decimalDigits = runes ''0123456789''"

definition sign :: "nat list" where
  "sign = runes ''+-''"

text \<open>
  \<open>peek\<close> looks at the next rune without reading it; \<open>accept\<close> reads it when it is one
  of \<open>ok\<close> (and the caller appends it to the token buffer).
\<close>

definition peek :: "nat list \<Rightarrow> string \<Rightarrow> bool" where
  "peek ok s = (case getRune s of None \<Rightarrow> False | Some (r, _) \<Rightarrow> r \<in> set ok)"

definition accept :: "nat list \<Rightarrow> string \<Rightarrow> (nat \<times> string) option" where
  "accept ok s =
     (case getRune s of
        None \<Rightarrow> None
      | Some (r, s') \<Rightarrow> if r \<in> set ok then Some (r, s') else None)"


text \<open>
  \<open>SkipSpace\<close> as \<open>Sscanf\<close> runs it (a newline is not a space there): it reads runes
  while they are spaces, fails at a line feed, and leaves the first other rune unread.
\<close>

function SkipSpace :: "string \<Rightarrow> scan_error + string" where
  "SkipSpace s =
     (case getRune s of
        None \<Rightarrow> Inr s
      | Some (r, s') \<Rightarrow>
          if r = 0x0D \<and> peek (runes [CHR 0x0A]) s' then SkipSpace s'
          else if r = 0x0A then Inl UnexpectedNewline
          else if \<not> isSpace r then Inr s
          else SkipSpace s')"
  by pat_completeness auto
termination
proof -
  have shorter: "length s - snd (DecodeRune s) < length s" if "s \<noteq> []" for s
    using that by (cases s) (auto simp: Let_def split: list.splits)
  show ?thesis
    by (relation "measure length") (auto simp: getRune_def shorter split: if_splits)
qed

declare SkipSpace.simps [simp del]

text \<open>
  \<open>advance\<close> on a piece of a format that holds literal characters only (no space, no
  percent sign): each must be the next rune of the input.
\<close>

fun advance :: "string \<Rightarrow> string \<Rightarrow> scan_error + string" where
  "advance [] s = Inr s"
| "advance (fmtc # format) s =
     (case getRune s of
        None \<Rightarrow> Inl UnexpectedEOF
      | Some (inputc, s') \<Rightarrow>
          if of_char fmtc \<noteq> inputc then Inl InputDoesNotMatchFormat
          else advance format s')"

text \<open>
  \<open>scanNumber\<close>: at least one digit, then every digit that follows; \<open>buf\<close> is the token
  buffer, which already holds the sign when there is one.
\<close>

function accept_loop :: "nat list \<Rightarrow> nat list \<Rightarrow> string \<Rightarrow> nat list \<times> string" where
  "accept_loop ok buf s =
     (case accept ok s of
        None \<Rightarrow> (buf, s)
      | Some (r, s') \<Rightarrow> accept_loop ok (buf @ [r]) s')"
  by pat_completeness auto
termination
proof -
  have shorter: "length s - snd (DecodeRune s) < length s" if "s \<noteq> []" for s
    using that by (cases s) (auto simp: Let_def split: list.splits)
  show ?thesis
    by (relation "measure (\<lambda>(ok, buf, s). length s)")
       (auto simp: accept_def getRune_def shorter split: if_splits)
qed

declare accept_loop.simps [simp del]

definition scanNumber :: "nat list \<Rightarrow> nat list \<Rightarrow> string \<Rightarrow> scan_error + (nat list \<times> string)" where
  "scanNumber digits buf s =
     (if s = [] then Inl EOF
      else case accept digits s of
             None \<Rightarrow> Inl ExpectedInteger
           | Some (r, s') \<Rightarrow> Inr (accept_loop digits (buf @ [r]) s'))"

text \<open>
  \<open>strconv.ParseUint(tok, 10, 64)\<close> and \<open>strconv.ParseInt(tok, 10, 64)\<close>: the value of
  the digits, out of range from \<open>2 ^ 64\<close> on, and for the signed one outside
  \<open>- 2 ^ 63 \<dots> 2 ^ 63 - 1\<close>.
\<close>

definition digits_value :: "nat list \<Rightarrow> nat" where
  "digits_value tok = foldl (\<lambda>n d. n * 10 + (d - 0x30)) 0 tok"

definition ParseUint :: "nat list \<Rightarrow> scan_error + nat" where
  "ParseUint tok =
     (if tok = [] \<or> \<not> list_all (\<lambda>d. d \<in> set decimalDigits) tok then Inl InvalidSyntax
      else if digits_value tok \<ge> 2 ^ 64 then Inl ValueOutOfRange
      else Inr (digits_value tok))"

definition ParseInt :: "nat list \<Rightarrow> scan_error + int" where
  "ParseInt tok =
     (case tok of
        [] \<Rightarrow> Inl InvalidSyntax
      | c # rest \<Rightarrow>
          let neg = (c = 0x2D);
              s = (if c = 0x2B \<or> c = 0x2D then rest else tok)
          in if s = [] \<or> \<not> list_all (\<lambda>d. d \<in> set decimalDigits) s then Inl InvalidSyntax
             else let un = digits_value s; cutoff = 2 ^ 63
                  in if \<not> neg \<and> un \<ge> cutoff then Inl ValueOutOfRange
                     else if neg \<and> un > cutoff then Inl ValueOutOfRange
                     else Inr (if neg then - int un else int un))"

text \<open>
  \<open>scanUint\<close> and \<open>scanInt\<close> for the verb \<open>d\<close>: spaces are skipped, the input must not
  be at its end, the token is read (with its sign for a signed value) and parsed, and
  the value must survive a shift to \<open>bitSize\<close> bits and back.
\<close>

definition scanUint :: "nat \<Rightarrow> string \<Rightarrow> scan_error + (64 word \<times> string)" where
  "scanUint bitSize s =
     (case SkipSpace s of
        Inl e \<Rightarrow> Inl e
      | Inr s1 \<Rightarrow>
          if s1 = [] then Inl EOF
          else
            (case scanNumber decimalDigits [] s1 of
               Inl e \<Rightarrow> Inl e
             | Inr (tok, s2) \<Rightarrow>
                 (case ParseUint tok of
                    Inl e \<Rightarrow> Inl e
                  | Inr v \<Rightarrow>
                      (let i = of_nat v :: 64 word;
                           x = drop_bit (64 - bitSize) (push_bit (64 - bitSize) i)
                       in if x \<noteq> i then Inl IntegerOverflow else Inr (i, s2)))))"

definition scanInt :: "nat \<Rightarrow> string \<Rightarrow> scan_error + (64 word \<times> string)" where
  "scanInt bitSize s =
     (case SkipSpace s of
        Inl e \<Rightarrow> Inl e
      | Inr s1 \<Rightarrow>
          if s1 = [] then Inl EOF
          else
            (let (buf, s2) =
                   (case accept sign s1 of None \<Rightarrow> ([], s1) | Some (r, s') \<Rightarrow> ([r], s'))
             in (case scanNumber decimalDigits buf s2 of
                   Inl e \<Rightarrow> Inl e
                 | Inr (tok, s3) \<Rightarrow>
                     (case ParseInt tok of
                        Inl e \<Rightarrow> Inl e
                      | Inr v \<Rightarrow>
                          (let i = of_int v :: 64 word;
                               x = signed_drop_bit (64 - bitSize) (push_bit (64 - bitSize) i)
                           in if x \<noteq> i then Inl IntegerOverflow else Inr (i, s3))))))"

text \<open>\<open>intBits\<close>: the width of \<open>int\<close>, on a 64-bit platform.\<close>

definition intBits :: nat where
  "intBits = 64"

text \<open>
  \<open>doScanf\<close> for one verb \<open>%d\<close> of the format: it skips spaces and scans one operand.
\<close>

definition verb_d_int :: "string \<Rightarrow> scan_error + (int \<times> string)" where
  "verb_d_int s =
     (case SkipSpace s of
        Inl e \<Rightarrow> Inl e
      | Inr s1 \<Rightarrow>
          (case scanInt intBits s1 of Inl e \<Rightarrow> Inl e | Inr (i, s2) \<Rightarrow> Inr (sint i, s2)))"

definition verb_d_uint32 :: "string \<Rightarrow> scan_error + (32 word \<times> string)" where
  "verb_d_uint32 s =
     (case SkipSpace s of
        Inl e \<Rightarrow> Inl e
      | Inr s1 \<Rightarrow>
          (case scanUint 32 s1 of Inl e \<Rightarrow> Inl e | Inr (i, s2) \<Rightarrow> Inr (ucast i, s2)))"

definition verb_d_uint8 :: "string \<Rightarrow> scan_error + (8 word \<times> string)" where
  "verb_d_uint8 s =
     (case SkipSpace s of
        Inl e \<Rightarrow> Inl e
      | Inr s1 \<Rightarrow>
          (case scanUint 8 s1 of Inl e \<Rightarrow> Inl e | Inr (i, s2) \<Rightarrow> Inr (ucast i, s2)))"

text \<open>
  The two calls of \<open>VerifyPassword\<close>: \<open>fmt.Sscanf(decodedKey[2], "v=%d", &version)\<close> with
  \<open>version\<close> an \<open>int\<close>, and \<open>fmt.Sscanf(decodedKey[3], "m=%d,t=%d,p=%d", &p.Memory,
  &p.Time, &p.Threads)\<close> with operands of type \<open>uint32\<close>, \<open>uint32\<close> and \<open>uint8\<close>. The
  format is followed from left to right; what is left of the input after the last
  operand is not looked at.
\<close>

definition Sscanf_version :: "string \<Rightarrow> scan_error + int" where
  "Sscanf_version str =
     (case advance ''v='' str of
        Inl e \<Rightarrow> Inl e
      | Inr s1 \<Rightarrow> (case verb_d_int s1 of Inl e \<Rightarrow> Inl e | Inr (version, s2) \<Rightarrow> Inr version))"

definition Sscanf_params :: "string \<Rightarrow> scan_error + (32 word \<times> 32 word \<times> 8 word)" where
  "Sscanf_params str =
     (case advance ''m='' str of Inl e \<Rightarrow> Inl e | Inr s1 \<Rightarrow>
     (case verb_d_uint32 s1 of Inl e \<Rightarrow> Inl e | Inr (memory, s2) \<Rightarrow>
     (case advance '',t='' s2 of Inl e \<Rightarrow> Inl e | Inr s3 \<Rightarrow>
     (case verb_d_uint32 s3 of Inl e \<Rightarrow> Inl e | Inr (time, s4) \<Rightarrow>
     (case advance '',p='' s4 of Inl e \<Rightarrow> Inl e | Inr s5 \<Rightarrow>
     (case verb_d_uint8 s5 of Inl e \<Rightarrow> Inl e | Inr (threads, s6) \<Rightarrow>
        Inr (memory, time, threads)))))))"

section \<open>\<open>subtle.ConstantTimeCompare\<close>\<close>

definition ConstantTimeByteEq :: "byte \<Rightarrow> byte \<Rightarrow> int" where
  "ConstantTimeByteEq x y = uint (drop_bit 31 ((ucast (x XOR y) :: 32 word) - 1))"

definition ConstantTimeCompare :: "byte list \<Rightarrow> byte list \<Rightarrow> int" where
  "ConstantTimeCompare x y =
     (if length x \<noteq> length y then 0
      else ConstantTimeByteEq (foldl (\<lambda>v (a, b). v OR (a XOR b)) 0 (zip x y)) 0)"

section \<open>The package: \<open>HashPassword\<close> and \<open>VerifyPassword\<close>\<close>

text \<open>
  \<open>argon2.IDKey(password, salt, time, memory, threads, keyLen)\<close> is the derivation
  function of \<open>golang.org/x/crypto/argon2\<close>. It is a parameter of the model: a function
  of its six arguments.
\<close>

type_synonym derivation =
  "byte list \<Rightarrow> byte list \<Rightarrow> 32 word \<Rightarrow> 32 word \<Rightarrow> 8 word \<Rightarrow> 32 word \<Rightarrow> byte list"

definition HashPassword :: "derivation \<Rightarrow> string \<Rightarrow> string \<Rightarrow> Options \<Rightarrow> error + string" where
  "HashPassword IDKey password salt options =
     (if password = [] then Inl ErrPasswordRequired
      else if salt = [] then Inl ErrSaltRequired
      else
        let hash = IDKey (bytes password) (bytes salt)
                     (Time options) (Memory options) (Threads options) (KeyLen options);
            b64Salt = EncodeToBase64String (bytes salt);
            b64Hash = EncodeToBase64String hash;
            key = ''$argon2id$v='' @ fmt_d Version @
                  ''$m='' @ fmt_d (uint (Memory options)) @
                  '',t='' @ fmt_d (uint (Time options)) @
                  '',p='' @ fmt_d (uint (Threads options)) @
                  ''$'' @ b64Salt @ ''$'' @ b64Hash
        in Inr key)"

text \<open>\<open>VerifyPassword\<close> returns an \<open>error\<close>; \<open>None\<close> is \<open>nil\<close>.\<close>

definition VerifyPassword :: "derivation \<Rightarrow> string \<Rightarrow> string \<Rightarrow> error option" where
  "VerifyPassword IDKey password key =
     (if password = [] then Some ErrPasswordRequired
      else if key = [] then Some ErrArgon2KeyRequired
      else
        let decodedKey = Split key (CHR ''$'') in
        if length decodedKey \<noteq> 6 then Some ErrInvalidKeyLength
        else
          (case Sscanf_version (decodedKey ! 2) of
             Inl err \<Rightarrow> Some (ScanError err)
           | Inr version \<Rightarrow>
               if version \<noteq> Version then Some ErrArgonVersionMismatch
               else
                 (case Sscanf_params (decodedKey ! 3) of
                    Inl err \<Rightarrow> Some (ScanError err)
                  | Inr (memory, time, threads) \<Rightarrow>
                      (case DecodeBase64String (decodedKey ! 4) of
                         Inl err \<Rightarrow> Some err
                       | Inr salt \<Rightarrow>
                           (case DecodeBase64String (decodedKey ! 5) of
                              Inl err \<Rightarrow> Some err
                            | Inr hash \<Rightarrow>
                                (let keyLen = of_nat (length hash) :: 32 word;
                                     control = IDKey (bytes password) salt
                                                 time memory threads keyLen
                                 in if ConstantTimeCompare hash control = 1 then None
                                    else Some ErrHashNotEqualPassword))))))"

text \<open>
  A derivation function for concrete runs. On the one input for which the package's
  tests record the result of \<open>argon2.IDKey\<close> (\<open>TestHashPassword\<close>, \<open>ValidHash\<close>: password
  \<open>password\<close>, salt \<open>salt\<close>, \<open>DefaultOptions\<close>) it returns that result, \<open>test_hash\<close>;
  elsewhere it returns \<open>keyLen\<close> zero bytes.
\<close>

definition test_hash :: "byte list" where
  "test_hash = [57, 108, 38, 156, 161, 94, 152, 161, 54, 32, 184, 204, 235, 72, 245, 178,
                141, 104, 69, 112, 197, 37, 138, 175, 58, 38, 37, 101, 48, 114, 190, 229]"

definition test_IDKey :: derivation where
  "test_IDKey password salt time memory threads keyLen =
     (if password = bytes ''password'' \<and> salt = bytes ''salt'' \<and> time = 1 \<and>
         memory = 65536 \<and> threads = 4 \<and> keyLen = 32
      then test_hash else replicate (unat keyLen) 0)"

text \<open>The credential string of the package's tests, for that input.\<close>

definition test_key :: string where
  "test_key = ''$argon2id$v=19$m=65536,t=1,p=4$c2FsdA$OWwmnKFemKE2ILjM60j1so1oRXDFJYqvOiYlZTByvuU''"

section \<open>Notions used to state the properties\<close>

text \<open>
  A decimal digit, the value of a string of digits, and the parameter segment that
  \<open>HashPassword\<close> writes for given options (the part \<open>m=%d,t=%d,p=%d\<close> of its format).
\<close>

definition isDigit :: "char \<Rightarrow> bool" where
  "isDigit c = (c \<in> set ''0123456789'')"

definition decimal :: "string \<Rightarrow> nat" where
  "decimal ds = digits_value (map of_char ds)"

definition params_segment :: "Options \<Rightarrow> string" where
  "params_segment options =
     ''m='' @ fmtInteger (unat (Memory options)) @ '',t='' @ fmtInteger (unat (Time options)) @
     '',p='' @ fmtInteger (unat (Threads options))"

section \<open>The codec round trip\<close>

lemma decodeMap_table:
  "\<forall>n \<in> set [0..<64]. decodeMap (encodeURL ! n) = of_nat n \<and> decodeMap (encodeURL ! n) \<noteq> 0xFF"
  by code_simp

lemma mask6: "(0x3F :: 32 word) = mask 6"
  by (simp add: mask_eq_exp_minus_1)

lemma unat_mask6: "unat (x AND (0x3F :: 32 word)) < 64"
proof -
  have "unat (x AND 0x3F) \<le> unat (0x3F :: 32 word)"
    by (rule word_and_le1 [THEN word_le_nat_alt [THEN iffD1]])
  then show ?thesis by simp
qed

lemma decodeMap_encode:
  "decodeMap (encode (x AND 0x3F)) = ucast (x AND 0x3F)"
  "decodeMap (encode (x AND 0x3F)) \<noteq> 0xFF"
proof -
  have "unat (x AND 0x3F) \<in> set [0..<64]"
    using unat_mask6 [of x] by simp
  with decodeMap_table
  have *: "decodeMap (encodeURL ! unat (x AND 0x3F)) = of_nat (unat (x AND 0x3F))"
    and **: "decodeMap (encodeURL ! unat (x AND 0x3F)) \<noteq> 0xFF"
    by blast+
  show "decodeMap (encode (x AND 0x3F)) = ucast (x AND 0x3F)"
    using * by (simp add: encode_def)
  show "decodeMap (encode (x AND 0x3F)) \<noteq> 0xFF"
    using ** by (simp add: encode_def)
qed

lemma SucSuc_diff2:
  "2 \<le> n \<Longrightarrow> Suc (Suc (n - 2)) = n" "\<not> n < 2 \<Longrightarrow> Suc (Suc (n - 2)) = n"
  by simp_all

lemma assemble4:
  fixes b0 b1 b2 :: byte
  defines "val \<equiv> push_bit 16 (ucast b0) OR push_bit 8 (ucast b1) OR ucast b2 :: 32 word"
  shows "assemble [ucast (drop_bit 18 val AND 0x3F), ucast (drop_bit 12 val AND 0x3F),
          ucast (drop_bit 6 val AND 0x3F), ucast (val AND 0x3F)] = [b0, b1, b2]"
  unfolding assemble_def val_def mask6
  apply (simp add: Let_def)
  apply (intro conjI bit_word_eqI)
  apply (auto simp: bit_simps SucSuc_diff2 dest: bit_imp_le_length)
  done

lemma assemble3:
  fixes b0 b1 :: byte
  defines "val \<equiv> push_bit 16 (ucast b0) OR push_bit 8 (ucast b1) :: 32 word"
  shows "assemble [ucast (drop_bit 18 val AND 0x3F), ucast (drop_bit 12 val AND 0x3F),
          ucast (drop_bit 6 val AND 0x3F)] = [b0, b1]"
  unfolding assemble_def val_def mask6
  apply (simp add: Let_def)
  apply (intro conjI bit_word_eqI)
  apply (auto simp: bit_simps SucSuc_diff2 dest: bit_imp_le_length)
  done

lemma assemble2:
  fixes b0 :: byte
  defines "val \<equiv> push_bit 16 (ucast b0) :: 32 word"
  shows "assemble [ucast (drop_bit 18 val AND 0x3F), ucast (drop_bit 12 val AND 0x3F)] = [b0]"
  unfolding assemble_def val_def mask6
  apply (simp add: Let_def)
  apply (intro conjI bit_word_eqI)
  apply (auto simp: bit_simps SucSuc_diff2 dest: bit_imp_le_length)
  done

lemma ucast_mask6_neq: "(ucast (x AND (0x3F :: 32 word)) :: byte) \<noteq> 0xFF"
  using decodeMap_encode [of x] by simp

lemma decode_alphabet:
  "decode dbuf (encode (x AND 0x3F) # src) =
     (if length dbuf = 3 then
        (case decode [] src of
           Inl e \<Rightarrow> Inl e
         | Inr dst \<Rightarrow> Inr (assemble (dbuf @ [ucast (x AND 0x3F)]) @ dst))
      else decode (dbuf @ [ucast (x AND 0x3F)]) src)"
  by (simp add: decodeMap_encode ucast_mask6_neq Let_def)

lemma decode_quantum4:
  "decode [] (encode (x0 AND 0x3F) # encode (x1 AND 0x3F) # encode (x2 AND 0x3F) #
              encode (x3 AND 0x3F) # src) =
     (case decode [] src of
        Inl e \<Rightarrow> Inl e
      | Inr dst \<Rightarrow> Inr (assemble [ucast (x0 AND 0x3F), ucast (x1 AND 0x3F),
                                  ucast (x2 AND 0x3F), ucast (x3 AND 0x3F)] @ dst))"
  by (simp add: decode_alphabet del: decode.simps cong: sum.case_cong)

lemma decode_quantum3:
  "decode [] [encode (x0 AND 0x3F), encode (x1 AND 0x3F), encode (x2 AND 0x3F)] =
     Inr (assemble [ucast (x0 AND 0x3F), ucast (x1 AND 0x3F), ucast (x2 AND 0x3F)])"
  by (simp add: decode_alphabet del: decode.simps(2))

lemma decode_quantum2:
  "decode [] [encode (x0 AND 0x3F), encode (x1 AND 0x3F)] =
     Inr (assemble [ucast (x0 AND 0x3F), ucast (x1 AND 0x3F)])"
  by (simp add: decode_alphabet del: decode.simps(2))

text \<open>Decoding a string that starts with the encoding of three bytes.\<close>

lemma decode_EncodeToString_append:
  "decode [] (EncodeToString (b0 # b1 # b2 # bs) @ s) =
     (case decode [] (EncodeToString bs @ s) of
        Inl e \<Rightarrow> Inl e
      | Inr dst \<Rightarrow> Inr (b0 # b1 # b2 # dst))"
  unfolding EncodeToString.simps Let_def append_Cons decode_quantum4 assemble4
  by (simp cong: sum.case_cong)

lemma decode_EncodeToString: "decode [] (EncodeToString b) = Inr b"
proof (induction b rule: EncodeToString.induct)
  case (1 b0 b1 b2 src)
  show ?case
    using decode_EncodeToString_append [of b0 b1 b2 src "[]"] 1 by simp
next
  case (2 b0 b1)
  show ?case
    unfolding EncodeToString.simps Let_def decode_quantum3 assemble3 ..
next
  case (3 b0)
  show ?case
    unfolding EncodeToString.simps Let_def decode_quantum2 assemble2 ..
next
  case 4
  show ?case by simp
qed

text \<open>
  Claim C3. The codec round trip: for every byte sequence \<open>b\<close>, decoding the encoding
  of \<open>b\<close> gives \<open>b\<close> back, without error. The encoder is a total function; the empty
  byte sequence encodes to the empty string, and the empty string decodes to the empty
  byte sequence.
\<close>

theorem codec_round_trip:
  "DecodeBase64String (EncodeToBase64String b) = Inr b \<and>
   EncodeToBase64String [] = [] \<and>
   DecodeBase64String [] = Inr []"
  by (simp add: DecodeBase64String_def EncodeToBase64String_def DecodeString_def
      decode_EncodeToString)



section \<open>Splitting\<close>

lemma genSplit_append:
  "sep \<notin> set a \<Longrightarrow> genSplit sep cur (a @ s) = genSplit sep (cur @ a) s"
  by (induction a arbitrary: cur) auto

lemma Split_no_sep: "sep \<notin> set a \<Longrightarrow> Split a sep = [a]"
  using genSplit_append [of sep a "[]" "[]"] by (simp add: Split_def)

lemma Split_sep: "sep \<notin> set a \<Longrightarrow> Split (a @ sep # s) sep = a # Split s sep"
  using genSplit_append [of sep a "[]" "sep # s"] by (simp add: Split_def)

lemma length_genSplit: "length (genSplit sep cur s) = Suc (length (filter (\<lambda>c. c = sep) s))"
  by (induction s arbitrary: cur) auto

lemma length_Split: "length (Split s sep) = Suc (length (filter (\<lambda>c. c = sep) s))"
  by (simp add: Split_def length_genSplit)

section \<open>The comparison decides equality\<close>

lemma ConstantTimeByteEq_0_eq: "ConstantTimeByteEq 0 0 = 1"
proof -
  have "(ucast (0 :: byte) :: 32 word) - 1 = 0xFFFFFFFF" by simp
  moreover have "drop_bit 31 (0xFFFFFFFF :: 32 word) = 1" by simp
  ultimately show ?thesis by (simp add: ConstantTimeByteEq_def)
qed

lemma ConstantTimeByteEq_0_neq:
  assumes "v \<noteq> 0"
  shows "ConstantTimeByteEq v 0 = 0"
proof -
  let ?w = "ucast v :: 32 word"
  have v: "unat v < 256" using unsigned_less [of v, where 'a = nat] by simp
  have uw: "unat ?w = unat v"
    using v by (simp add: unsigned_ucast_eq take_bit_nat_eq_self)
  have "?w \<noteq> 0" using assms uw by (metis unat_0_iff)
  then have "unat (?w - 1) = unat ?w - 1" by (rule unat_minus_one)
  with uw v have "unat (?w - 1) < 2 ^ 31" by simp
  then have "unat (drop_bit 31 (?w - 1)) = 0"
    unfolding unat_drop_bit_eq by (simp add: drop_bit_eq_div)
  then have "drop_bit 31 (?w - 1) = 0" by (simp add: unat_0_iff)
  then show ?thesis by (simp add: ConstantTimeByteEq_def)
qed


lemma xor_eq_0: "(a XOR b = 0) = (a = b)" for a b :: byte
proof
  assume "a XOR b = 0"
  then have "a XOR (a XOR b) = a" by simp
  then show "a = b" by (simp flip: xor.assoc)
qed simp

lemma foldl_or_xor:
  "length x = length y \<Longrightarrow>
   (foldl (\<lambda>v (a, b). v OR (a XOR b)) (v0 :: byte) (zip x y) = 0) = (v0 = 0 \<and> x = y)"
proof (induction x y arbitrary: v0 rule: list_induct2)
  case Nil
  then show ?case by simp
next
  case (Cons a x b y)
  have "(v0 OR (a XOR b) = 0) = (v0 = 0 \<and> a = b)"
    by (simp add: or_eq_0_iff xor_eq_0)
  with Cons.IH [of "v0 OR (a XOR b)"] show ?case by auto
qed

lemma ConstantTimeCompare_eq: "(ConstantTimeCompare x y = 1) = (x = y)"
proof (cases "length x = length y")
  case True
  show ?thesis
  proof (cases "x = y")
    case True
    then have "foldl (\<lambda>v (a, b). v OR (a XOR b)) (0 :: byte) (zip x y) = 0"
      using foldl_or_xor [of x y 0] by simp
    with True show ?thesis by (simp add: ConstantTimeCompare_def ConstantTimeByteEq_0_eq)
  next
    case False
    with True have "foldl (\<lambda>v (a, b). v OR (a XOR b)) (0 :: byte) (zip x y) \<noteq> 0"
      using foldl_or_xor [of x y 0] by simp
    with True False show ?thesis
      by (simp add: ConstantTimeCompare_def ConstantTimeByteEq_0_neq)
  qed
next
  case False
  then show ?thesis by (auto simp: ConstantTimeCompare_def)
qed

section \<open>Scanning decimal numerals\<close>


lemma getRune_Nil: "getRune [] = None"
  by (simp add: getRune_def)

lemma getRune_ascii: "of_char c < (0x80 :: nat) \<Longrightarrow> getRune (c # s) = Some (of_char c, s)"
  by (simp add: getRune_def)

lemma isDigit_facts:
  assumes "isDigit c"
  shows "of_char c < (0x80 :: nat)"
    and "of_char c \<in> set decimalDigits"
    and "\<not> isSpace (of_char c)"
    and "of_char c \<notin> set sign"
    and "(0x30 :: nat) \<le> of_char c" and "of_char c \<le> (0x39 :: nat)"
  using assms
  by (auto simp: isDigit_def decimalDigits_def runes_def isSpace_def space_def sign_def)

lemma getRune_digit: "isDigit c \<Longrightarrow> getRune (c # s) = Some (of_char c, s)"
  by (simp add: getRune_ascii isDigit_facts)

lemma SkipSpace_Nil: "SkipSpace [] = Inr []"
  by (simp add: SkipSpace.simps getRune_Nil)

lemma SkipSpace_ascii:
  "of_char c < (0x80 :: nat) \<Longrightarrow> \<not> isSpace (of_char c) \<Longrightarrow> SkipSpace (c # s) = Inr (c # s)"
  by (subst SkipSpace.simps) (auto simp: getRune_ascii isSpace_def space_def)

lemma SkipSpace_digit: "isDigit c \<Longrightarrow> SkipSpace (c # s) = Inr (c # s)"
  by (simp add: SkipSpace_ascii isDigit_facts)

lemma accept_digit: "isDigit c \<Longrightarrow> accept decimalDigits (c # s) = Some (of_char c, s)"
  by (simp add: accept_def getRune_digit isDigit_facts)

lemma accept_sign_digit: "isDigit c \<Longrightarrow> accept sign (c # s) = None"
  by (simp add: accept_def getRune_digit isDigit_facts)

lemma accept_loop_digits:
  "\<forall>c \<in> set ds. isDigit c \<Longrightarrow> accept decimalDigits rest = None \<Longrightarrow>
   accept_loop decimalDigits buf (ds @ rest) = (buf @ map of_char ds, rest)"
proof (induction ds arbitrary: buf)
  case Nil
  then show ?case by (subst accept_loop.simps) simp
next
  case (Cons c ds)
  then show ?case by (subst accept_loop.simps) (simp add: accept_digit)
qed

lemma scanNumber_digits:
  "ds \<noteq> [] \<Longrightarrow> \<forall>c \<in> set ds. isDigit c \<Longrightarrow> accept decimalDigits rest = None \<Longrightarrow>
   scanNumber decimalDigits buf (ds @ rest) = Inr (buf @ map of_char ds, rest)"
  by (cases ds) (simp_all add: scanNumber_def accept_digit accept_loop_digits)


lemma digits_value_snoc: "digits_value (tok @ [d]) = digits_value tok * 10 + (d - 0x30)"
  by (simp add: digits_value_def)

lemma digit_table:
  "\<forall>u \<in> set [0..<10]. isDigit (digit u) \<and> (of_char (digit u) :: nat) = 0x30 + u"
  by code_simp

lemma digit_isDigit: "u < 10 \<Longrightarrow> isDigit (digit u)"
  using digit_table by simp

lemma of_char_digit: "u < 10 \<Longrightarrow> (of_char (digit u) :: nat) = 0x30 + u"
  using digit_table by simp

lemma fmtInteger_digits: "fmtInteger u \<noteq> [] \<and> (\<forall>c \<in> set (fmtInteger u). isDigit c)"
proof (induction u rule: fmtInteger.induct)
  case (1 u)
  show ?case
  proof (cases "u \<ge> 10")
    case True
    with 1 show ?thesis by (subst fmtInteger.simps, subst (2) fmtInteger.simps) (simp add: digit_isDigit)
  next
    case False
    then show ?thesis by (subst fmtInteger.simps, subst (2) fmtInteger.simps) (simp add: digit_isDigit)
  qed
qed

lemma decimal_fmtInteger: "decimal (fmtInteger u) = u"
proof (induction u rule: fmtInteger.induct)
  case (1 u)
  show ?case
  proof (cases "u \<ge> 10")
    case True
    with 1 have "decimal (fmtInteger (u div 10)) = u div 10" by simp
    with True show ?thesis
      by (subst fmtInteger.simps) (simp add: decimal_def digits_value_snoc of_char_digit)
  next
    case False
    then show ?thesis
      by (subst fmtInteger.simps) (simp add: decimal_def digits_value_def of_char_digit)
  qed
qed

lemma shift_back_eq_take_bit:
  "b \<le> 64 \<Longrightarrow> drop_bit (64 - b) (push_bit (64 - b) i) = take_bit b i" for i :: "64 word"
  by (rule bit_word_eqI) (auto simp: bit_simps)

lemma take_bit_eq_self_unat: "(take_bit b i = i) = (unat i < 2 ^ b)" for i :: "64 word"
proof -
  have "(take_bit b i = i) = (unat (take_bit b i) = unat i)"
    by (simp add: word_unat_eq_iff)
  also have "\<dots> = (take_bit b (unat i) = unat i)"
    by (simp add: unsigned_take_bit_eq)
  also have "\<dots> = (unat i < 2 ^ b)"
    by (simp add: take_bit_nat_eq_self_iff)
  finally show ?thesis .
qed

lemma fits_unsigned:
  "b \<le> 64 \<Longrightarrow> v < 2 ^ 64 \<Longrightarrow>
   (drop_bit (64 - b) (push_bit (64 - b) (of_nat v :: 64 word)) = of_nat v) = (v < 2 ^ b)"
  by (simp add: shift_back_eq_take_bit take_bit_eq_self_unat unat_of_nat)

lemma list_all_digits: "\<forall>c \<in> set ds. isDigit c \<Longrightarrow> list_all (\<lambda>d. d \<in> set decimalDigits) (map of_char ds)"
  by (induction ds) (simp_all add: isDigit_facts)

lemma ParseUint_digits:
  "ds \<noteq> [] \<Longrightarrow> \<forall>c \<in> set ds. isDigit c \<Longrightarrow>
   ParseUint (map of_char ds) =
     (if decimal ds \<ge> 2 ^ 64 then Inl ValueOutOfRange else Inr (decimal ds))"
  by (simp add: ParseUint_def list_all_digits decimal_def)

lemma scanUint_digits:
  assumes "ds \<noteq> []" and "\<forall>c \<in> set ds. isDigit c" and "accept decimalDigits rest = None"
    and "b \<le> 64"
  shows "scanUint b (ds @ rest) =
     (if decimal ds \<ge> 2 ^ 64 then Inl ValueOutOfRange
      else if decimal ds \<ge> 2 ^ b then Inl IntegerOverflow
      else Inr (of_nat (decimal ds), rest))"
proof -
  obtain c cs where ds: "ds = c # cs" using assms(1) by (cases ds) auto
  then have c: "isDigit c" using assms(2) by simp
  have skip: "SkipSpace (ds @ rest) = Inr (ds @ rest)"
    using c by (simp add: ds SkipSpace_digit)
  have ne: "ds @ rest \<noteq> []" using assms(1) by simp
  show ?thesis
    using assms(4) fits_unsigned [of b "decimal ds"]
    by (simp only: scanUint_def skip ne scanNumber_digits [OF assms(1-3)] ParseUint_digits [OF assms(1,2)]
        sum.case prod.case if_False append_Nil Let_def)
      (auto simp: not_le)
qed

lemma verb_d_uint32_digits:
  assumes "ds \<noteq> []" and "\<forall>c \<in> set ds. isDigit c" and "accept decimalDigits rest = None"
    and "decimal ds < 2 ^ 32"
  shows "verb_d_uint32 (ds @ rest) = Inr (of_nat (decimal ds), rest)"
proof -
  obtain c cs where ds: "ds = c # cs" using assms(1) by (cases ds) auto
  then have c: "isDigit c" using assms(2) by simp
  have skip: "SkipSpace (ds @ rest) = Inr (ds @ rest)"
    using c by (simp add: ds SkipSpace_digit)
  have "decimal ds < 2 ^ 64" using assms(4) by simp
  then have "take_bit 64 (decimal ds) = decimal ds" by (simp add: take_bit_nat_eq_self)
  then show ?thesis
    using assms(4)
    by (simp add: verb_d_uint32_def skip scanUint_digits [OF assms(1-3)] unsigned_of_nat)
qed

lemma verb_d_uint8_digits:
  assumes "ds \<noteq> []" and "\<forall>c \<in> set ds. isDigit c" and "accept decimalDigits rest = None"
    and "decimal ds < 2 ^ 8"
  shows "verb_d_uint8 (ds @ rest) = Inr (of_nat (decimal ds), rest)"
proof -
  obtain c cs where ds: "ds = c # cs" using assms(1) by (cases ds) auto
  then have c: "isDigit c" using assms(2) by simp
  have skip: "SkipSpace (ds @ rest) = Inr (ds @ rest)"
    using c by (simp add: ds SkipSpace_digit)
  have "decimal ds < 2 ^ 64" using assms(4) by simp
  then have "take_bit 64 (decimal ds) = decimal ds" by (simp add: take_bit_nat_eq_self)
  then show ?thesis
    using assms(4)
    by (simp add: verb_d_uint8_def skip scanUint_digits [OF assms(1-3)] unsigned_of_nat)
qed

lemma accept_Nil: "accept ok [] = None"
  by (simp add: accept_def getRune_Nil)

lemma accept_digits_comma: "accept decimalDigits (CHR '','' # s) = None"
  by (simp add: accept_def getRune_def decimalDigits_def runes_def)

lemma advance_m: "advance ''m='' (CHR ''m'' # CHR ''='' # s) = Inr s"
  by (simp add: getRune_def)

lemma advance_t: "advance '',t='' (CHR '','' # CHR ''t'' # CHR ''='' # s) = Inr s"
  by (simp add: getRune_def)

lemma advance_p: "advance '',p='' (CHR '','' # CHR ''p'' # CHR ''='' # s) = Inr s"
  by (simp add: getRune_def)

lemma advance_v: "advance ''v='' (CHR ''v'' # CHR ''='' # s) = Inr s"
  by (simp add: getRune_def)

lemma Sscanf_params_digits:
  assumes m: "m \<noteq> []" "\<forall>c \<in> set m. isDigit c" "decimal m < 2 ^ 32"
    and t: "t \<noteq> []" "\<forall>c \<in> set t. isDigit c" "decimal t < 2 ^ 32"
    and p: "p \<noteq> []" "\<forall>c \<in> set p. isDigit c" "decimal p < 2 ^ 8"
    and rest: "accept decimalDigits rest = None"
  shows "Sscanf_params (''m='' @ m @ '',t='' @ t @ '',p='' @ p @ rest) =
           Inr (of_nat (decimal m), of_nat (decimal t), of_nat (decimal p))"
proof -
  have 1: "verb_d_uint32 (m @ '',t='' @ t @ '',p='' @ p @ rest) =
             Inr (of_nat (decimal m), '',t='' @ t @ '',p='' @ p @ rest)"
    by (rule verb_d_uint32_digits [OF m(1,2) _ m(3)]) (simp add: accept_digits_comma)
  have 2: "verb_d_uint32 (t @ '',p='' @ p @ rest) = Inr (of_nat (decimal t), '',p='' @ p @ rest)"
    by (rule verb_d_uint32_digits [OF t(1,2) _ t(3)]) (simp add: accept_digits_comma)
  have 3: "verb_d_uint8 (p @ rest) = Inr (of_nat (decimal p), rest)"
    by (rule verb_d_uint8_digits [OF p(1,2) rest p(3)])
  have a1: "advance ''m='' (''m='' @ m @ '',t='' @ t @ '',p='' @ p @ rest) =
              Inr (m @ '',t='' @ t @ '',p='' @ p @ rest)"
    using advance_m by simp
  have a2: "advance '',t='' ('',t='' @ t @ '',p='' @ p @ rest) = Inr (t @ '',p='' @ p @ rest)"
    using advance_t by simp
  have a3: "advance '',p='' ('',p='' @ p @ rest) = Inr (p @ rest)"
    using advance_p by simp
  show ?thesis
    unfolding Sscanf_params_def a1 sum.case 1 prod.case a2 2 a3 3 ..
qed

lemma ParseInt_digits:
  "ds \<noteq> [] \<Longrightarrow> \<forall>c \<in> set ds. isDigit c \<Longrightarrow>
   ParseInt (map of_char ds) =
     (if decimal ds \<ge> 2 ^ 63 then Inl ValueOutOfRange else Inr (int (decimal ds)))"
proof -
  assume ne: "ds \<noteq> []" and dig: "\<forall>c \<in> set ds. isDigit c"
  then obtain c cs where ds: "ds = c # cs" by (cases ds) auto
  have c: "(of_char c :: nat) \<noteq> 0x2D" "(of_char c :: nat) \<noteq> 0x2B"
    using dig isDigit_facts(5) [of c] by (auto simp: ds)
  have "list_all (\<lambda>d. d \<in> set decimalDigits) (map of_char ds)"
    using dig by (rule list_all_digits)
  then show ?thesis
    using c by (simp add: ParseInt_def ds decimal_def Let_def)
qed

lemma scanInt_digits:
  assumes "ds \<noteq> []" and "\<forall>c \<in> set ds. isDigit c" and "accept decimalDigits rest = None"
  shows "scanInt intBits (ds @ rest) =
     (if decimal ds \<ge> 2 ^ 63 then Inl ValueOutOfRange
      else Inr (of_nat (decimal ds), rest))"
proof -
  obtain c cs where ds: "ds = c # cs" using assms(1) by (cases ds) auto
  then have c: "isDigit c" using assms(2) by simp
  have skip: "SkipSpace (ds @ rest) = Inr (ds @ rest)"
    using c by (simp add: ds SkipSpace_digit)
  have ne: "ds @ rest \<noteq> []" using assms(1) by simp
  have sg: "accept sign (ds @ rest) = None"
    using c by (simp add: ds accept_sign_digit)
  show ?thesis
    using scanNumber_digits [OF assms(1-3), of "[]"] ParseInt_digits [OF assms(1,2)] assms(1)
    by (simp add: scanInt_def skip sg intBits_def)
qed

lemma verb_d_int_digits:
  assumes "ds \<noteq> []" and "\<forall>c \<in> set ds. isDigit c" and "accept decimalDigits rest = None"
    and "decimal ds < 2 ^ 63"
  shows "verb_d_int (ds @ rest) = Inr (int (decimal ds), rest)"
proof -
  obtain c cs where ds: "ds = c # cs" using assms(1) by (cases ds) auto
  then have c: "isDigit c" using assms(2) by simp
  have skip: "SkipSpace (ds @ rest) = Inr (ds @ rest)"
    using c by (simp add: ds SkipSpace_digit)
  have "sint (of_nat (decimal ds) :: 64 word) = int (decimal ds)"
    using assms(4) by (simp add: signed_of_nat signed_take_bit_int_eq_self)
  then show ?thesis
    using assms(4)
    by (simp add: verb_d_int_def skip scanInt_digits [OF assms(1-3)])
qed

lemma Sscanf_version_digits:
  assumes "ds \<noteq> []" and "\<forall>c \<in> set ds. isDigit c" and "accept decimalDigits rest = None"
    and "decimal ds < 2 ^ 63"
  shows "Sscanf_version (''v='' @ ds @ rest) = Inr (int (decimal ds))"
  using advance_v [of "ds @ rest"] verb_d_int_digits [OF assms]
  by (simp add: Sscanf_version_def)

section \<open>The steps of \<open>VerifyPassword\<close>\<close>

lemma Split_Nil: "Split [] sep = [[]]"
  by (simp add: Split_def)

lemmas scan_eval =
  Sscanf_version_def Sscanf_params_def verb_d_int_def verb_d_uint32_def verb_d_uint8_def
  scanInt_def scanUint_def scanNumber_def SkipSpace.simps accept_loop.simps accept_def
  getRune_def peek_def ParseInt_def ParseUint_def digits_value_def decimalDigits_def
  sign_def runes_def isSpace_def space_def intBits_def Let_def

lemma VerifyPassword_six:
  assumes "password \<noteq> []" and "Split key (CHR ''$'') = [s0, s1, s2, s3, s4, s5]"
  shows "VerifyPassword IDKey password key =
     (case Sscanf_version s2 of
        Inl err \<Rightarrow> Some (ScanError err)
      | Inr version \<Rightarrow>
          if version \<noteq> Version then Some ErrArgonVersionMismatch
          else
            (case Sscanf_params s3 of
               Inl err \<Rightarrow> Some (ScanError err)
             | Inr (memory, time, threads) \<Rightarrow>
                 (case DecodeBase64String s4 of
                    Inl err \<Rightarrow> Some err
                  | Inr salt \<Rightarrow>
                      (case DecodeBase64String s5 of
                         Inl err \<Rightarrow> Some err
                       | Inr hash \<Rightarrow>
                           if IDKey (bytes password) salt time memory threads
                                (of_nat (length hash)) = hash
                           then None else Some ErrHashNotEqualPassword))))"
proof -
  have "key \<noteq> []" using assms(2) by (auto simp: Split_Nil)
  then show ?thesis
    using assms
    by (auto simp: VerifyPassword_def Let_def ConstantTimeCompare_eq
        split: sum.splits prod.splits)
qed

section \<open>The credential string written by \<open>HashPassword\<close>\<close>

lemma encode_in_alphabet: "encode (x AND 0x3F) \<in> set encodeURL"
proof -
  have "unat (x AND 0x3F) < length encodeURL"
    using unat_mask6 [of x] by (simp add: encodeURL_def)
  then show ?thesis unfolding encode_def by (rule nth_mem)
qed

lemma EncodeToString_alphabet: "set (EncodeToString b) \<subseteq> set encodeURL"
proof (induction b rule: EncodeToString.induct)
  case (1 b0 b1 b2 src)
  then show ?case
    unfolding EncodeToString.simps Let_def by (simp only: set_simps insert_subset encode_in_alphabet simp_thms)
next
  case (2 b0 b1)
  show ?case
    unfolding EncodeToString.simps Let_def by (simp only: set_simps insert_subset encode_in_alphabet empty_subsetI simp_thms)
next
  case (3 b0)
  show ?case
    unfolding EncodeToString.simps Let_def by (simp only: set_simps insert_subset encode_in_alphabet empty_subsetI simp_thms)
next
  case 4
  show ?case by simp
qed

lemma dollar_not_in_EncodeToString: "CHR ''$'' \<notin> set (EncodeToBase64String b)"
proof -
  have "CHR ''$'' \<notin> set encodeURL" by (simp add: encodeURL_def)
  then show ?thesis
    using EncodeToString_alphabet [of b] by (auto simp: EncodeToBase64String_def)
qed

lemma dollar_not_digit: "\<forall>c \<in> set ds. isDigit c \<Longrightarrow> CHR ''$'' \<notin> set ds"
proof
  assume "\<forall>c \<in> set ds. isDigit c" and "CHR ''$'' \<in> set ds"
  then have "isDigit (CHR ''$'')" by blast
  then show False by (simp add: isDigit_def)
qed

lemma dollar_not_in_fmtInteger: "CHR ''$'' \<notin> set (fmtInteger u)"
  using fmtInteger_digits [of u] dollar_not_digit by blast

lemma fmt_d_uint: "fmt_d (uint w) = fmtInteger (unat w)"
  by (simp add: fmt_d_def)

lemma fmtInteger_small: "u < 10 \<Longrightarrow> fmtInteger u = [digit u]"
  by (subst fmtInteger.simps) simp

lemma fmtInteger_step: "u \<ge> 10 \<Longrightarrow> fmtInteger u = fmtInteger (u div 10) @ [digit (u mod 10)]"
  by (subst fmtInteger.simps) simp

lemma digit_eq_iff: "u < 10 \<Longrightarrow> (digit u = c) = ((of_char c :: nat) = 0x30 + u)"
proof -
  assume "u < 10"
  then have "(of_char (digit u) :: nat) = 0x30 + u" by (rule of_char_digit)
  then have "(of_char (digit u) = (of_char c :: nat)) = ((of_char c :: nat) = 0x30 + u)" by auto
  then show ?thesis by (simp only: of_char_eq_iff)
qed

lemma digit_chars:
  "digit 1 = CHR ''1''" "digit 3 = CHR ''3''" "digit 4 = CHR ''4''" "digit 5 = CHR ''5''"
  "digit 6 = CHR ''6''" "digit 9 = CHR ''9''"
  by (simp_all add: digit_eq_iff)

lemma fmtInteger_19: "fmtInteger 19 = ''19''"
proof -
  have "fmtInteger 19 = fmtInteger 1 @ [digit 9]"
    using fmtInteger_step [of 19] by simp
  also have "\<dots> = [digit 1, digit 9]"
    using fmtInteger_small [of 1] by simp
  finally show ?thesis by (simp only: digit_chars)
qed

lemma fmtInteger_65536: "fmtInteger 65536 = ''65536''"
proof -
  have "fmtInteger 65536 = fmtInteger 6553 @ [digit 6]"
    using fmtInteger_step [of 65536] by simp
  also have "fmtInteger 6553 = fmtInteger 655 @ [digit 3]"
    using fmtInteger_step [of 6553] by simp
  also have "fmtInteger 655 = fmtInteger 65 @ [digit 5]"
    using fmtInteger_step [of 655] by simp
  also have "fmtInteger 65 = fmtInteger 6 @ [digit 5]"
    using fmtInteger_step [of 65] by simp
  also have "fmtInteger 6 = [digit 6]"
    using fmtInteger_small [of 6] by simp
  finally show ?thesis by (simp only: digit_chars append.simps)
qed

lemma fmt_d_Version: "fmt_d Version = ''19''"
  by (simp add: fmt_d_def Version_def fmtInteger_19)

lemma Split_six:
  assumes "CHR ''$'' \<notin> set a" "CHR ''$'' \<notin> set b" "CHR ''$'' \<notin> set c"
    "CHR ''$'' \<notin> set d" "CHR ''$'' \<notin> set e" "CHR ''$'' \<notin> set f"
  shows "Split (a @ CHR ''$'' # b @ CHR ''$'' # c @ CHR ''$'' # d @ CHR ''$'' # e @ CHR ''$'' # f)
           (CHR ''$'') = [a, b, c, d, e, f]"
  using assms by (simp add: Split_sep Split_no_sep)


lemma dollar_not_in_params_segment: "CHR ''$'' \<notin> set (params_segment options)"
  by (simp add: params_segment_def dollar_not_in_fmtInteger)

lemma HashPassword_key:
  assumes "password \<noteq> []" and "salt \<noteq> []"
  shows "HashPassword IDKey password salt options =
     Inr ([] @ CHR ''$'' # ''argon2id'' @ CHR ''$'' # ''v=19'' @ CHR ''$'' #
          params_segment options @ CHR ''$'' # EncodeToBase64String (bytes salt) @ CHR ''$'' #
          EncodeToBase64String (IDKey (bytes password) (bytes salt) (Time options)
             (Memory options) (Threads options) (KeyLen options)))"
  using assms
  by (simp add: HashPassword_def fmt_d_uint fmt_d_Version Let_def params_segment_def)

lemma Split_HashPassword_key:
  "Split ([] @ CHR ''$'' # ''argon2id'' @ CHR ''$'' # ''v=19'' @ CHR ''$'' #
          params_segment options @ CHR ''$'' # EncodeToBase64String salt @ CHR ''$'' #
          EncodeToBase64String hash) (CHR ''$'') =
     [[], ''argon2id'', ''v=19'', params_segment options, EncodeToBase64String salt,
      EncodeToBase64String hash]"
  by (rule Split_six) (simp_all add: dollar_not_in_params_segment dollar_not_in_EncodeToString)

lemma Sscanf_params_segment:
  "accept decimalDigits rest = None \<Longrightarrow>
   Sscanf_params (params_segment options @ rest) =
     Inr (Memory options, Time options, Threads options)"
proof -
  assume rest: "accept decimalDigits rest = None"
  have m: "decimal (fmtInteger (unat (Memory options))) < 2 ^ 32"
    using unsigned_less [of "Memory options", where 'a = nat] by (simp add: decimal_fmtInteger)
  have t: "decimal (fmtInteger (unat (Time options))) < 2 ^ 32"
    using unsigned_less [of "Time options", where 'a = nat] by (simp add: decimal_fmtInteger)
  have p: "decimal (fmtInteger (unat (Threads options))) < 2 ^ 8"
    using unsigned_less [of "Threads options", where 'a = nat] by (simp add: decimal_fmtInteger)
  show ?thesis
    using Sscanf_params_digits [OF _ _ m _ _ t _ _ p rest] fmtInteger_digits
    by (simp add: params_segment_def decimal_fmtInteger)
qed

lemma Sscanf_version_19: "accept decimalDigits rest = None \<Longrightarrow> Sscanf_version (''v=19'' @ rest) = Inr Version"
proof -
  assume rest: "accept decimalDigits rest = None"
  have "decimal ''19'' = 19" by (simp add: decimal_def digits_value_def)
  moreover have "\<forall>c \<in> set ''19''. isDigit c" by (simp add: isDigit_def)
  ultimately show ?thesis
    using Sscanf_version_digits [of "''19''" rest] rest by (simp add: Version_def)
qed

lemma EncodeToBase64String_inj:
  "EncodeToBase64String a = EncodeToBase64String b \<Longrightarrow> a = b"
proof -
  assume "EncodeToBase64String a = EncodeToBase64String b"
  then have "decode [] (EncodeToString a) = decode [] (EncodeToString b)"
    by (simp add: EncodeToBase64String_def)
  then show "a = b" by (simp add: decode_EncodeToString)
qed

lemma EncodeToBase64String_test_hash:
  "EncodeToBase64String test_hash = ''OWwmnKFemKE2ILjM60j1so1oRXDFJYqvOiYlZTByvuU''"
  by code_simp

lemma EncodeToBase64String_salt: "EncodeToBase64String (bytes ''salt'') = ''c2FsdA''"
  by code_simp

lemma params_segment_Default: "params_segment DefaultOptions = ''m=65536,t=1,p=4''"
proof -
  have "fmtInteger 1 = ''1''" "fmtInteger 4 = ''4''"
    by (simp_all add: fmtInteger_small digit_eq_iff)
  then show ?thesis
    by (simp add: params_segment_def DefaultOptions_def fmtInteger_65536)
qed

section \<open>Concrete runs\<close>

lemma Split_test_key:
  "Split test_key (CHR ''$'') =
     [[], ''argon2id'', ''v=19'', ''m=65536,t=1,p=4'', ''c2FsdA'',
      ''OWwmnKFemKE2ILjM60j1so1oRXDFJYqvOiYlZTByvuU'']"
  by (simp add: Split_def test_key_def)

lemma Sscanf_version_v19: "Sscanf_version ''v=19'' = Inr Version"
  by (simp add: scan_eval Version_def)

lemma Sscanf_params_test: "Sscanf_params ''m=65536,t=1,p=4'' = Inr (65536, 1, 4)"
  by (simp add: scan_eval)

lemma DecodeBase64String_salt: "DecodeBase64String ''c2FsdA'' = Inr (bytes ''salt'')"
  by code_simp

lemma DecodeBase64String_test_hash:
  "DecodeBase64String ''OWwmnKFemKE2ILjM60j1so1oRXDFJYqvOiYlZTByvuU'' = Inr test_hash"
  by code_simp

lemma length_test_hash: "length test_hash = 32"
  by (simp add: test_hash_def)

lemma test_IDKey_test_hash:
  "test_IDKey (bytes ''password'') (bytes ''salt'') 1 65536 4 32 = test_hash"
  by (simp add: test_IDKey_def)

lemma test_IDKey_other:
  "test_IDKey (bytes ''password1'') (bytes ''salt'') 1 65536 4 32 \<noteq> test_hash"
  by code_simp

lemma HashPassword_test_key:
  "HashPassword test_IDKey ''password'' ''salt'' DefaultOptions = Inr test_key"
  using HashPassword_key [of "''password''" "''salt''" test_IDKey DefaultOptions]
  by (simp add: params_segment_Default EncodeToBase64String_salt test_key_def)
     (simp add: DefaultOptions_def test_IDKey_test_hash EncodeToBase64String_test_hash)

section \<open>Verification\<close>

text \<open>
  Claim C1. For a non-empty password and a credential string that passes the earlier
  checks (six segments, a version segment that scans to the current version, a
  parameter segment that scans, salt and hash segments that decode), \<open>VerifyPassword\<close>
  succeeds exactly when \<open>IDKey\<close>, applied to the password, the decoded salt, the
  scanned time, memory and threads, and a key length that is the number of bytes of the
  decoded hash (converted to \<open>uint32\<close>, never read from the text), returns the decoded
  hash; otherwise it fails with \<open>ErrHashNotEqualPassword\<close>.
\<close>

theorem VerifyPassword_compares:
  assumes "password \<noteq> []"
    and "Split key (CHR ''$'') = [s0, s1, s2, s3, s4, s5]"
    and "Sscanf_version s2 = Inr Version"
    and "Sscanf_params s3 = Inr (memory, time, threads)"
    and "DecodeBase64String s4 = Inr salt"
    and "DecodeBase64String s5 = Inr hash"
  shows "VerifyPassword IDKey password key =
           (if IDKey (bytes password) salt time memory threads (of_nat (length hash)) = hash
            then None else Some ErrHashNotEqualPassword)"
  using assms by (simp add: VerifyPassword_six [OF assms(1,2)])

theorem VerifyPassword_compares_witness:
  "''password'' \<noteq> [] \<and>
   Split test_key (CHR ''$'') =
     [[], ''argon2id'', ''v=19'', ''m=65536,t=1,p=4'', ''c2FsdA'',
      ''OWwmnKFemKE2ILjM60j1so1oRXDFJYqvOiYlZTByvuU''] \<and>
   Sscanf_version ''v=19'' = Inr Version \<and>
   Sscanf_params ''m=65536,t=1,p=4'' = Inr (65536, 1, 4) \<and>
   DecodeBase64String ''c2FsdA'' = Inr (bytes ''salt'') \<and>
   DecodeBase64String ''OWwmnKFemKE2ILjM60j1so1oRXDFJYqvOiYlZTByvuU'' = Inr test_hash \<and>
   VerifyPassword test_IDKey ''password'' test_key = None \<and>
   VerifyPassword test_IDKey ''password1'' test_key = Some ErrHashNotEqualPassword"
proof -
  have ne: "''password'' \<noteq> []" "''password1'' \<noteq> []" by simp_all
  have "VerifyPassword test_IDKey ''password'' test_key = None"
    using VerifyPassword_compares [OF ne(1) Split_test_key Sscanf_version_v19
        Sscanf_params_test DecodeBase64String_salt DecodeBase64String_test_hash, of test_IDKey]
    by (simp add: length_test_hash test_IDKey_test_hash)
  moreover have "VerifyPassword test_IDKey ''password1'' test_key = Some ErrHashNotEqualPassword"
    using VerifyPassword_compares [OF ne(2) Split_test_key Sscanf_version_v19
        Sscanf_params_test DecodeBase64String_salt DecodeBase64String_test_hash, of test_IDKey]
    by (simp add: length_test_hash test_IDKey_other)
  ultimately show ?thesis
    using Split_test_key Sscanf_version_v19 Sscanf_params_test DecodeBase64String_salt
      DecodeBase64String_test_hash
    by simp
qed

text \<open>
  Claim C2. For a non-empty password, a non-empty salt and any options, when \<open>IDKey\<close>
  returns \<open>KeyLen\<close> bytes for them, verifying the password against the credential
  string that \<open>HashPassword\<close> returns succeeds: the string splits into six segments,
  its version segment scans to the current version, its parameter segment scans to the
  memory, time and threads of the options, its salt and hash segments decode to the
  salt and the derived hash, and the hash derived again is equal to the stored one.
  (\<open>IDKey\<close> is a function, so it returns the same bytes for the same arguments.)
\<close>

theorem Verify_after_Hash:
  assumes "password \<noteq> []" and "salt \<noteq> []"
    and "length (IDKey (bytes password) (bytes salt) (Time options) (Memory options)
           (Threads options) (KeyLen options)) = unat (KeyLen options)"
  shows "\<exists>key s0 s1 s2 s3 s4 s5.
           HashPassword IDKey password salt options = Inr key \<and>
           Split key (CHR ''$'') = [s0, s1, s2, s3, s4, s5] \<and>
           Sscanf_version s2 = Inr Version \<and>
           Sscanf_params s3 = Inr (Memory options, Time options, Threads options) \<and>
           DecodeBase64String s4 = Inr (bytes salt) \<and>
           DecodeBase64String s5 = Inr (IDKey (bytes password) (bytes salt) (Time options)
             (Memory options) (Threads options) (KeyLen options)) \<and>
           VerifyPassword IDKey password key = None"
proof -
  let ?hash = "IDKey (bytes password) (bytes salt) (Time options) (Memory options)
           (Threads options) (KeyLen options)"
  let ?key = "[] @ CHR ''$'' # ''argon2id'' @ CHR ''$'' # ''v=19'' @ CHR ''$'' #
          params_segment options @ CHR ''$'' # EncodeToBase64String (bytes salt) @ CHR ''$'' #
          EncodeToBase64String ?hash"
  have key: "HashPassword IDKey password salt options = Inr ?key"
    using assms(1,2) by (rule HashPassword_key)
  have split: "Split ?key (CHR ''$'') =
     [[], ''argon2id'', ''v=19'', params_segment options, EncodeToBase64String (bytes salt),
      EncodeToBase64String ?hash]"
    by (rule Split_HashPassword_key)
  have v: "Sscanf_version ''v=19'' = Inr Version"
    using Sscanf_version_19 [of "[]"] by (simp add: accept_Nil)
  have p: "Sscanf_params (params_segment options) =
      Inr (Memory options, Time options, Threads options)"
    using Sscanf_params_segment [of "[]" options] by (simp add: accept_Nil)
  have s: "DecodeBase64String (EncodeToBase64String (bytes salt)) = Inr (bytes salt)"
    and h: "DecodeBase64String (EncodeToBase64String ?hash) = Inr ?hash"
    by (simp_all add: DecodeBase64String_def EncodeToBase64String_def DecodeString_def
        decode_EncodeToString)
  have len: "(of_nat (length ?hash) :: 32 word) = KeyLen options"
    using assms(3) by simp
  have "VerifyPassword IDKey password ?key = None"
    unfolding VerifyPassword_six [OF assms(1) split] v p s h by (simp add: len)
  with key split v p s h show ?thesis by blast
qed

theorem Verify_after_Hash_witness:
  "''password'' \<noteq> [] \<and> ''salt'' \<noteq> [] \<and>
   length (test_IDKey (bytes ''password'') (bytes ''salt'') (Time DefaultOptions)
     (Memory DefaultOptions) (Threads DefaultOptions) (KeyLen DefaultOptions)) =
     unat (KeyLen DefaultOptions) \<and>
   HashPassword test_IDKey ''password'' ''salt'' DefaultOptions = Inr test_key \<and>
   VerifyPassword test_IDKey ''password'' test_key = None"
proof -
  have ne: "''password'' \<noteq> []" "''salt'' \<noteq> []" by simp_all
  have len: "length (test_IDKey (bytes ''password'') (bytes ''salt'') (Time DefaultOptions)
     (Memory DefaultOptions) (Threads DefaultOptions) (KeyLen DefaultOptions)) =
     unat (KeyLen DefaultOptions)"
    using test_IDKey_test_hash by (simp add: DefaultOptions_def length_test_hash)
  show ?thesis
    using Verify_after_Hash [of "''password''" "''salt''" test_IDKey DefaultOptions, OF ne len]
      len HashPassword_test_key by auto
qed

section \<open>Hashing\<close>

text \<open>
  Claim C4. For a non-empty password and a non-empty salt, \<open>HashPassword\<close> returns the
  string \<open>$argon2id$v=19$m=<memory>,t=<time>,p=<threads>$<salt>$<hash>\<close>: the numbers in
  decimal and in the order \<open>m\<close>, \<open>t\<close>, \<open>p\<close>, the salt and the derived hash in the
  unpadded URL-safe encoding; the string splits at \<open>$\<close> into exactly these six
  segments. For the password \<open>password\<close>, the salt \<open>salt\<close> and \<open>DefaultOptions\<close> the
  result is the string of the package's tests exactly when \<open>IDKey\<close> returns for them
  the 32 bytes \<open>test_hash\<close> that this string encodes.
\<close>

theorem HashPassword_format:
  "(password \<noteq> [] \<and> salt \<noteq> [] \<longrightarrow>
      (\<exists>key. HashPassword IDKey password salt options = Inr key \<and>
         key = ''$argon2id$v='' @ fmt_d Version @ ''$'' @ params_segment options @ ''$'' @
               EncodeToBase64String (bytes salt) @ ''$'' @
               EncodeToBase64String (IDKey (bytes password) (bytes salt) (Time options)
                 (Memory options) (Threads options) (KeyLen options)) \<and>
         Split key (CHR ''$'') =
           [[], ''argon2id'', ''v=19'', params_segment options,
            EncodeToBase64String (bytes salt),
            EncodeToBase64String (IDKey (bytes password) (bytes salt) (Time options)
                 (Memory options) (Threads options) (KeyLen options))])) \<and>
   (HashPassword IDKey ''password'' ''salt'' DefaultOptions =
      Inr ''$argon2id$v=19$m=65536,t=1,p=4$c2FsdA$OWwmnKFemKE2ILjM60j1so1oRXDFJYqvOiYlZTByvuU'')
    = (IDKey (bytes ''password'') (bytes ''salt'') 1 65536 4 32 = test_hash)"
proof (intro conjI impI)
  assume ne: "password \<noteq> [] \<and> salt \<noteq> []"
  show "\<exists>key. HashPassword IDKey password salt options = Inr key \<and>
         key = ''$argon2id$v='' @ fmt_d Version @ ''$'' @ params_segment options @ ''$'' @
               EncodeToBase64String (bytes salt) @ ''$'' @
               EncodeToBase64String (IDKey (bytes password) (bytes salt) (Time options)
                 (Memory options) (Threads options) (KeyLen options)) \<and>
         Split key (CHR ''$'') =
           [[], ''argon2id'', ''v=19'', params_segment options,
            EncodeToBase64String (bytes salt),
            EncodeToBase64String (IDKey (bytes password) (bytes salt) (Time options)
                 (Memory options) (Threads options) (KeyLen options))]"
    using ne HashPassword_key [of password salt IDKey options]
      Split_HashPassword_key [of options "bytes salt"]
    by (simp add: fmt_d_Version)
next
  have "HashPassword IDKey ''password'' ''salt'' DefaultOptions =
      Inr (''$argon2id$v=19$m=65536,t=1,p=4$c2FsdA$'' @
           EncodeToBase64String (IDKey (bytes ''password'') (bytes ''salt'') 1 65536 4 32))"
    using HashPassword_key [of "''password''" "''salt''" IDKey DefaultOptions]
    by (simp add: params_segment_Default EncodeToBase64String_salt)
       (simp add: DefaultOptions_def)
  moreover have "(EncodeToBase64String (IDKey (bytes ''password'') (bytes ''salt'') 1 65536 4 32) =
      ''OWwmnKFemKE2ILjM60j1so1oRXDFJYqvOiYlZTByvuU'') =
      (IDKey (bytes ''password'') (bytes ''salt'') 1 65536 4 32 = test_hash)"
    using EncodeToBase64String_inj EncodeToBase64String_test_hash by metis
  ultimately show "(HashPassword IDKey ''password'' ''salt'' DefaultOptions =
      Inr ''$argon2id$v=19$m=65536,t=1,p=4$c2FsdA$OWwmnKFemKE2ILjM60j1so1oRXDFJYqvOiYlZTByvuU'')
    = (IDKey (bytes ''password'') (bytes ''salt'') 1 65536 4 32 = test_hash)"
    by simp
qed

theorem HashPassword_format_witness:
  "''password'' \<noteq> [] \<and> ''salt'' \<noteq> [] \<and>
   test_IDKey (bytes ''password'') (bytes ''salt'') 1 65536 4 32 = test_hash \<and>
   HashPassword test_IDKey ''password'' ''salt'' DefaultOptions =
     Inr ''$argon2id$v=19$m=65536,t=1,p=4$c2FsdA$OWwmnKFemKE2ILjM60j1so1oRXDFJYqvOiYlZTByvuU'' \<and>
   Split ''$argon2id$v=19$m=65536,t=1,p=4$c2FsdA$OWwmnKFemKE2ILjM60j1so1oRXDFJYqvOiYlZTByvuU''
     (CHR ''$'') =
     [[], ''argon2id'', ''v=19'', ''m=65536,t=1,p=4'', ''c2FsdA'',
      ''OWwmnKFemKE2ILjM60j1so1oRXDFJYqvOiYlZTByvuU'']"
proof -
  have ne: "''password'' \<noteq> [] \<and> ''salt'' \<noteq> []" by simp
  note inst = HashPassword_format [of "''password''" "''salt''" test_IDKey DefaultOptions]
  have key: "HashPassword test_IDKey ''password'' ''salt'' DefaultOptions =
     Inr ''$argon2id$v=19$m=65536,t=1,p=4$c2FsdA$OWwmnKFemKE2ILjM60j1so1oRXDFJYqvOiYlZTByvuU''"
    using inst [THEN conjunct2] test_IDKey_test_hash by simp
  have hash: "test_IDKey (bytes ''password'') (bytes ''salt'') (Time DefaultOptions)
      (Memory DefaultOptions) (Threads DefaultOptions) (KeyLen DefaultOptions) = test_hash"
    using test_IDKey_test_hash by (simp add: DefaultOptions_def)
  obtain key where "HashPassword test_IDKey ''password'' ''salt'' DefaultOptions = Inr key"
    and "Split key (CHR ''$'') =
           [[], ''argon2id'', ''v=19'', params_segment DefaultOptions,
            EncodeToBase64String (bytes ''salt''),
            EncodeToBase64String (test_IDKey (bytes ''password'') (bytes ''salt'')
              (Time DefaultOptions) (Memory DefaultOptions) (Threads DefaultOptions)
              (KeyLen DefaultOptions))]"
    using inst [THEN conjunct1] ne by blast
  with key have "Split ''$argon2id$v=19$m=65536,t=1,p=4$c2FsdA$OWwmnKFemKE2ILjM60j1so1oRXDFJYqvOiYlZTByvuU''
     (CHR ''$'') =
     [[], ''argon2id'', ''v=19'', ''m=65536,t=1,p=4'', ''c2FsdA'',
      ''OWwmnKFemKE2ILjM60j1so1oRXDFJYqvOiYlZTByvuU'']"
    unfolding hash params_segment_Default EncodeToBase64String_salt
      EncodeToBase64String_test_hash
    by simp
  with key test_IDKey_test_hash show ?thesis by simp
qed

section \<open>Rejections\<close>

text \<open>
  Claim C8. For a non-empty password and a credential string of six segments whose
  version segment scans to an integer other than the current version,
  \<open>VerifyPassword\<close> fails with \<open>ErrArgonVersionMismatch\<close>, whatever the four later
  segments are: the parameter segment is not scanned and the salt and hash segments are
  not decoded before. So it does for \<open>$argon2id$v=1$m=65536,t=1,p=4$=$=\<close>, whose last two
  segments do not decode.
\<close>

theorem version_mismatch:
  "(password \<noteq> [] \<and> Split key (CHR ''$'') = [s0, s1, s2, s3, s4, s5] \<and>
    Sscanf_version s2 = Inr version \<and> version \<noteq> Version
    \<longrightarrow> VerifyPassword IDKey password key = Some ErrArgonVersionMismatch) \<and>
   VerifyPassword IDKey ''password'' ''$argon2id$v=1$m=65536,t=1,p=4$=$='' =
     Some ErrArgonVersionMismatch \<and>
   DecodeBase64String ''='' = Inl CorruptInputError"
proof (intro conjI impI)
  assume "password \<noteq> [] \<and> Split key (CHR ''$'') = [s0, s1, s2, s3, s4, s5] \<and>
    Sscanf_version s2 = Inr version \<and> version \<noteq> Version"
  then show "VerifyPassword IDKey password key = Some ErrArgonVersionMismatch"
    by (simp add: VerifyPassword_six [of password key s0 s1 s2 s3 s4 s5])
next
  have "Split ''$argon2id$v=1$m=65536,t=1,p=4$=$='' (CHR ''$'') =
          [[], ''argon2id'', ''v=1'', ''m=65536,t=1,p=4'', ''='', ''='']"
    by (simp add: Split_def)
  moreover have "Sscanf_version ''v=1'' = Inr 1"
    by (simp add: scan_eval)
  ultimately show "VerifyPassword IDKey ''password'' ''$argon2id$v=1$m=65536,t=1,p=4$=$='' =
      Some ErrArgonVersionMismatch"
    by (simp add: VerifyPassword_six [of "''password''" _ "[]" "''argon2id''" "''v=1''"
          "''m=65536,t=1,p=4''" "''=''" "''=''"] Version_def)
next
  show "DecodeBase64String ''='' = Inl CorruptInputError"
    by (simp add: DecodeBase64String_def DecodeString_def decodeMap_def encodeURL_def)
qed

theorem version_mismatch_witness:
  "''password'' \<noteq> [] \<and>
   Split ''$argon2id$v=20$m=x$=$='' (CHR ''$'') =
     [[], ''argon2id'', ''v=20'', ''m=x'', ''='', ''=''] \<and>
   Sscanf_version ''v=20'' = Inr 20 \<and> 20 \<noteq> Version \<and>
   VerifyPassword test_IDKey ''password'' ''$argon2id$v=20$m=x$=$='' =
     Some ErrArgonVersionMismatch"
proof -
  have a: "''password'' \<noteq> []" by simp
  have b: "Split ''$argon2id$v=20$m=x$=$='' (CHR ''$'') =
     [[], ''argon2id'', ''v=20'', ''m=x'', ''='', ''='']"
    by (simp add: Split_def)
  have c: "Sscanf_version ''v=20'' = Inr 20" by (simp add: scan_eval)
  have d: "20 \<noteq> Version" by (simp add: Version_def)
  show ?thesis
    using version_mismatch [of "''password''" "''$argon2id$v=20$m=x$=$=''" "[]" "''argon2id''"
        "''v=20''" "''m=x''" "''=''" "''=''" 20 test_IDKey] a b c d
    by simp
qed

text \<open>
  Claim C9. Missing input is rejected first, in a fixed order. \<open>HashPassword\<close> fails
  with \<open>ErrPasswordRequired\<close> for an empty password and with \<open>ErrSaltRequired\<close> for a
  non-empty password and an empty salt. \<open>VerifyPassword\<close> fails with
  \<open>ErrPasswordRequired\<close> for an empty password, with \<open>ErrArgon2KeyRequired\<close> for a
  non-empty password and an empty credential string, and with \<open>ErrInvalidKeyLength\<close>
  when the credential string does not split at \<open>$\<close> into exactly six segments. These
  results hold for every derivation function and, in the last case, for every content
  of the segments: they depend on no derivation and no decoding.
\<close>

theorem missing_input:
  "HashPassword IDKey [] salt options = Inl ErrPasswordRequired \<and>
   (password \<noteq> [] \<longrightarrow> HashPassword IDKey password [] options = Inl ErrSaltRequired) \<and>
   VerifyPassword IDKey [] key = Some ErrPasswordRequired \<and>
   (password \<noteq> [] \<longrightarrow> VerifyPassword IDKey password [] = Some ErrArgon2KeyRequired) \<and>
   (password \<noteq> [] \<and> key \<noteq> [] \<and> length (Split key (CHR ''$'')) \<noteq> 6 \<longrightarrow>
      VerifyPassword IDKey password key = Some ErrInvalidKeyLength)"
  by (simp add: HashPassword_def VerifyPassword_def Let_def)

theorem missing_input_witness:
  "HashPassword test_IDKey [] ''salt'' DefaultOptions = Inl ErrPasswordRequired \<and>
   ''password'' \<noteq> [] \<and>
   HashPassword test_IDKey ''password'' [] DefaultOptions = Inl ErrSaltRequired \<and>
   VerifyPassword test_IDKey [] ''$argon2id$v=19'' = Some ErrPasswordRequired \<and>
   VerifyPassword test_IDKey ''password'' [] = Some ErrArgon2KeyRequired \<and>
   ''$argon2id$v=19'' \<noteq> [] \<and> length (Split ''$argon2id$v=19'' (CHR ''$'')) \<noteq> 6 \<and>
   VerifyPassword test_IDKey ''password'' ''$argon2id$v=19'' = Some ErrInvalidKeyLength"
proof -
  have len: "length (Split ''$argon2id$v=19'' (CHR ''$'')) \<noteq> 6"
    by (simp add: Split_def)
  show ?thesis
    using missing_input [of test_IDKey "''salt''" DefaultOptions "''password''"
        "''$argon2id$v=19''"] len
    by simp
qed

text \<open>
  Claim C10. \<open>VerifyPassword\<close> does not look at the first two segments of the
  credential string: whatever they are, the result is that of the string which starts
  with \<open>$argon2id$\<close> and continues in the same way. So a string such as
  \<open>x$other$v=19$m=65536,t=1,p=4$<salt>$<hash>\<close> goes through the version check, the
  scanning of the parameters, the decoding and the derivation, and verifies.
\<close>

theorem leading_segments_ignored:
  "(CHR ''$'' \<notin> set a \<and> CHR ''$'' \<notin> set b \<longrightarrow>
      VerifyPassword IDKey password (a @ ''$'' @ b @ ''$'' @ rest) =
      VerifyPassword IDKey password (''$argon2id$'' @ rest)) \<and>
   VerifyPassword test_IDKey ''password''
     ''x$other$v=19$m=65536,t=1,p=4$c2FsdA$OWwmnKFemKE2ILjM60j1so1oRXDFJYqvOiYlZTByvuU'' = None"
proof (intro conjI impI)
  assume ab: "CHR ''$'' \<notin> set a \<and> CHR ''$'' \<notin> set b"
  have l: "Split (a @ ''$'' @ b @ ''$'' @ rest) (CHR ''$'') = a # b # Split rest (CHR ''$'')"
    using ab Split_sep [of "CHR ''$''" a "b @ ''$'' @ rest"] Split_sep [of "CHR ''$''" b rest]
    by simp
  have r: "Split (''$argon2id$'' @ rest) (CHR ''$'') = [] # ''argon2id'' # Split rest (CHR ''$'')"
    using Split_sep [of "CHR ''$''" "[]" "''argon2id$'' @ rest"]
      Split_sep [of "CHR ''$''" "''argon2id''" rest]
    by simp
  have n: "(x # y # xs) ! 2 = xs ! 0" "(x # y # xs) ! 3 = xs ! 1" "(x # y # xs) ! 4 = xs ! 2"
    "(x # y # xs) ! 5 = xs ! 3" for x y :: string and xs
    by (simp_all add: numeral_nat)
  show "VerifyPassword IDKey password (a @ ''$'' @ b @ ''$'' @ rest) =
      VerifyPassword IDKey password (''$argon2id$'' @ rest)"
    unfolding VerifyPassword_def l r Let_def n by simp
next
  have s: "Split ''x$other$v=19$m=65536,t=1,p=4$c2FsdA$OWwmnKFemKE2ILjM60j1so1oRXDFJYqvOiYlZTByvuU''
      (CHR ''$'') = [''x'', ''other'', ''v=19'', ''m=65536,t=1,p=4'', ''c2FsdA'',
      ''OWwmnKFemKE2ILjM60j1so1oRXDFJYqvOiYlZTByvuU'']"
    by (simp add: Split_def)
  have ne: "''password'' \<noteq> []" by simp
  show "VerifyPassword test_IDKey ''password''
     ''x$other$v=19$m=65536,t=1,p=4$c2FsdA$OWwmnKFemKE2ILjM60j1so1oRXDFJYqvOiYlZTByvuU'' = None"
    unfolding VerifyPassword_six [OF ne s] Sscanf_version_v19 Sscanf_params_test
      DecodeBase64String_salt DecodeBase64String_test_hash
    by (simp add: length_test_hash test_IDKey_test_hash)
qed

theorem leading_segments_ignored_witness:
  "CHR ''$'' \<notin> set ''x'' \<and> CHR ''$'' \<notin> set ''other'' \<and>
   VerifyPassword test_IDKey ''password''
     ''x$other$v=19$m=65536,t=1,p=4$c2FsdA$OWwmnKFemKE2ILjM60j1so1oRXDFJYqvOiYlZTByvuU'' =
   VerifyPassword test_IDKey ''password'' test_key"
  using leading_segments_ignored [of "''x''" "''other''" test_IDKey "''password''"
      "''v=19$m=65536,t=1,p=4$c2FsdA$OWwmnKFemKE2ILjM60j1so1oRXDFJYqvOiYlZTByvuU''"]
  by (simp add: test_key_def)

section \<open>A character after the encoding\<close>

lemma decodeMap_newline: "decodeMap (CHR 0x0A) = 0xFF" "decodeMap (CHR 0x0D) = 0xFF"
  by (simp_all add: decodeMap_def encodeURL_def)

lemma decode_snoc_newline:
  "c = CHR 0x0A \<or> c = CHR 0x0D \<Longrightarrow> decode dbuf (s @ [c]) = decode dbuf s"
proof (induction s arbitrary: dbuf)
  case Nil
  then show ?case by (auto simp: decodeMap_newline)
next
  case (Cons a s)
  then show ?case by (simp add: Let_def cong: sum.case_cong)
qed

lemma decode_snoc_corrupt:
  "decodeMap c = 0xFF \<Longrightarrow> c \<noteq> CHR 0x0A \<Longrightarrow> c \<noteq> CHR 0x0D \<Longrightarrow>
   decode dbuf (s @ [c]) = Inl CorruptInputError"
proof (induction s arbitrary: dbuf)
  case Nil
  then show ?case by simp
next
  case (Cons a s)
  then show ?case by (simp add: Let_def)
qed

lemma assemble3_extra:
  fixes b0 b1 d :: byte
  defines "val \<equiv> push_bit 16 (ucast b0) OR push_bit 8 (ucast b1) :: 32 word"
  shows "assemble [ucast (drop_bit 18 val AND 0x3F), ucast (drop_bit 12 val AND 0x3F),
          ucast (drop_bit 6 val AND 0x3F), d] = [b0, b1, d]"
  unfolding assemble_def val_def mask6
  apply (simp add: Let_def)
  apply (intro conjI bit_word_eqI)
  apply (auto simp: bit_simps SucSuc_diff2 dest: bit_imp_le_length)
  done

lemma assemble2_extra:
  fixes b0 d :: byte
  defines "val \<equiv> push_bit 16 (ucast b0) :: 32 word"
  shows "assemble [ucast (drop_bit 18 val AND 0x3F), ucast (drop_bit 12 val AND 0x3F), d] =
           [b0, drop_bit 2 d]"
  unfolding assemble_def val_def mask6
  apply (simp add: Let_def)
  apply (intro conjI bit_word_eqI)
  apply (auto simp: bit_simps SucSuc_diff2 dest: bit_imp_le_length)
  done

lemma decode_step:
  "decodeMap c \<noteq> 0xFF \<Longrightarrow>
   decode dbuf (c # src) =
     (if length dbuf = 3 then
        (case decode [] src of
           Inl e \<Rightarrow> Inl e
         | Inr dst \<Rightarrow> Inr (assemble (dbuf @ [decodeMap c]) @ dst))
      else decode (dbuf @ [decodeMap c]) src)"
  by (simp add: Let_def)

lemma decode_quantum3_extra:
  "decodeMap c \<noteq> 0xFF \<Longrightarrow>
   decode [] [encode (x0 AND 0x3F), encode (x1 AND 0x3F), encode (x2 AND 0x3F), c] =
     Inr (assemble [ucast (x0 AND 0x3F), ucast (x1 AND 0x3F), ucast (x2 AND 0x3F), decodeMap c])"
  by (simp add: decode_alphabet decode_step del: decode.simps(2))

lemma decode_quantum2_extra:
  "decodeMap c \<noteq> 0xFF \<Longrightarrow>
   decode [] [encode (x0 AND 0x3F), encode (x1 AND 0x3F), c] =
     Inr (assemble [ucast (x0 AND 0x3F), ucast (x1 AND 0x3F), decodeMap c])"
  by (simp add: decode_alphabet decode_step del: decode.simps(2))

lemma decode_EncodeToString_snoc:
  assumes "decodeMap c \<noteq> 0xFF"
  shows "decode [] (EncodeToString h @ [c]) =
     (if length h mod 3 = 0 then Inl CorruptInputError
      else Inr (h @ [if length h mod 3 = 2 then decodeMap c else drop_bit 2 (decodeMap c)]))"
proof (induction h rule: EncodeToString.induct)
  case (1 b0 b1 b2 src)
  have "length (b0 # b1 # b2 # src) mod 3 = length src mod 3" by simp
  then show ?case
    using 1 decode_EncodeToString_append [of b0 b1 b2 src "[c]"]
    by (simp del: EncodeToString.simps)
next
  case (2 b0 b1)
  show ?case
    unfolding EncodeToString.simps Let_def append_Cons append_Nil
      decode_quantum3_extra [OF assms] assemble3_extra
    by simp
next
  case (3 b0)
  show ?case
    unfolding EncodeToString.simps Let_def append_Cons append_Nil
      decode_quantum2_extra [OF assms] assemble2_extra
    by simp
next
  case 4
  show ?case using assms by (simp add: Let_def)
qed

lemma DecodeBase64String_snoc:
  "DecodeBase64String (EncodeToBase64String h @ [c]) =
     (if c = CHR 0x0A \<or> c = CHR 0x0D then Inr h
      else if decodeMap c = 0xFF \<or> length h mod 3 = 0 then Inl CorruptInputError
      else Inr (h @ [if length h mod 3 = 2 then decodeMap c else drop_bit 2 (decodeMap c)]))"
proof (cases "c = CHR 0x0A \<or> c = CHR 0x0D")
  case True
  then show ?thesis
    using decode_snoc_newline [of c "[]" "EncodeToString h"]
    by (simp add: DecodeBase64String_def DecodeString_def EncodeToBase64String_def
        decode_EncodeToString)
next
  case nl: False
  show ?thesis
  proof (cases "decodeMap c = 0xFF")
    case True
    with nl show ?thesis
      using decode_snoc_corrupt [of c "[]" "EncodeToString h"]
      by (simp add: DecodeBase64String_def DecodeString_def EncodeToBase64String_def)
  next
    case False
    with nl show ?thesis
      using decode_EncodeToString_snoc [of c h]
      by (simp add: DecodeBase64String_def DecodeString_def EncodeToBase64String_def)
  qed
qed

lemma key_snoc_other:
  assumes "c \<noteq> CHR ''$''" and "password \<noteq> []"
  shows "VerifyPassword IDKey password
           (([] @ CHR ''$'' # ''argon2id'' @ CHR ''$'' # ''v=19'' @ CHR ''$'' #
             params_segment options @ CHR ''$'' # EncodeToBase64String salt @ CHR ''$'' #
             EncodeToBase64String hash) @ [c]) =
         (case DecodeBase64String (EncodeToBase64String hash @ [c]) of
            Inl err \<Rightarrow> Some err
          | Inr hash' \<Rightarrow>
              if IDKey (bytes password) salt (Time options) (Memory options) (Threads options)
                   (of_nat (length hash')) = hash'
              then None else Some ErrHashNotEqualPassword)"
proof -
  have split: "Split (([] @ CHR ''$'' # ''argon2id'' @ CHR ''$'' # ''v=19'' @ CHR ''$'' #
             params_segment options @ CHR ''$'' # EncodeToBase64String salt @ CHR ''$'' #
             EncodeToBase64String hash) @ [c]) (CHR ''$'') =
     [[], ''argon2id'', ''v=19'', params_segment options, EncodeToBase64String salt,
      EncodeToBase64String hash @ [c]]"
    using Split_six [of "[]" "''argon2id''" "''v=19''" "params_segment options"
        "EncodeToBase64String salt" "EncodeToBase64String hash @ [c]"] assms(1)
    by (simp add: dollar_not_in_params_segment dollar_not_in_EncodeToString)
  have v: "Sscanf_version ''v=19'' = Inr Version"
    using Sscanf_version_19 [of "[]"] by (simp add: accept_Nil)
  have p: "Sscanf_params (params_segment options) =
      Inr (Memory options, Time options, Threads options)"
    using Sscanf_params_segment [of "[]" options] by (simp add: accept_Nil)
  have s: "DecodeBase64String (EncodeToBase64String salt) = Inr salt"
    by (simp add: DecodeBase64String_def EncodeToBase64String_def DecodeString_def
        decode_EncodeToString)
  show ?thesis
    unfolding VerifyPassword_six [OF assms(2) split] v p s by simp
qed

lemma key_snoc_dollar:
  assumes "password \<noteq> []"
  shows "VerifyPassword IDKey password
           (([] @ CHR ''$'' # ''argon2id'' @ CHR ''$'' # ''v=19'' @ CHR ''$'' #
             params_segment options @ CHR ''$'' # EncodeToBase64String salt @ CHR ''$'' #
             EncodeToBase64String hash) @ ''$'') = Some ErrInvalidKeyLength"
proof -
  let ?key = "[] @ CHR ''$'' # ''argon2id'' @ CHR ''$'' # ''v=19'' @ CHR ''$'' #
             params_segment options @ CHR ''$'' # EncodeToBase64String salt @ CHR ''$'' #
             EncodeToBase64String hash"
  have "length (Split ?key (CHR ''$'')) = 6"
    by (simp only: Split_HashPassword_key) simp
  then have "length (filter (\<lambda>c. c = CHR ''$'') ?key) = 5"
    by (simp only: length_Split)
  then have "length (Split (?key @ ''$'') (CHR ''$'')) = 7"
    by (simp only: length_Split filter_append) simp
  then show ?thesis
    using assms by (simp add: VerifyPassword_def Let_def)
qed

text \<open>
  Claim C5, as the code has it. Let \<open>key\<close> be the credential string that \<open>HashPassword\<close>
  returns for a non-empty password, a non-empty salt and options for which \<open>IDKey\<close>
  returns \<open>KeyLen\<close> bytes, and let \<open>c\<close> be one more character. Verifying the password
  against \<open>key\<close> followed by \<open>c\<close>
  \<^item> fails with \<open>ErrInvalidKeyLength\<close> when \<open>c\<close> is \<open>$\<close> (seven segments);
  \<^item> succeeds when \<open>c\<close> is a line feed or a carriage return, which the decoder skips;
  \<^item> fails with \<open>CorruptInputError\<close> when \<open>c\<close> is another character outside the
    alphabet, or a character of the alphabet after a hash whose length is a multiple
    of 3 (it would start a quantum of one character);
  \<^item> otherwise decodes the hash segment to the stored hash and one more byte, and
    compares: it fails with \<open>ErrHashNotEqualPassword\<close> unless \<open>IDKey\<close>, asked for one
    byte more, returns exactly these bytes.
\<close>

theorem trailing_character:
  assumes "password \<noteq> []" and "salt \<noteq> []"
    and "HashPassword IDKey password salt options = Inr key"
    and "hash = IDKey (bytes password) (bytes salt) (Time options) (Memory options)
           (Threads options) (KeyLen options)"
    and "length hash = unat (KeyLen options)"
  shows "VerifyPassword IDKey password (key @ [c]) =
     (if c = CHR ''$'' then Some ErrInvalidKeyLength
      else if c = CHR 0x0A \<or> c = CHR 0x0D then None
      else if decodeMap c = 0xFF \<or> length hash mod 3 = 0 then Some CorruptInputError
      else if IDKey (bytes password) (bytes salt) (Time options) (Memory options)
                (Threads options) (KeyLen options + 1) =
              hash @ [if length hash mod 3 = 2 then decodeMap c else drop_bit 2 (decodeMap c)]
           then None
      else Some ErrHashNotEqualPassword)"
proof -
  let ?key = "[] @ CHR ''$'' # ''argon2id'' @ CHR ''$'' # ''v=19'' @ CHR ''$'' #
          params_segment options @ CHR ''$'' # EncodeToBase64String (bytes salt) @ CHR ''$'' #
          EncodeToBase64String hash"
  have key: "key = ?key"
    using assms(3) HashPassword_key [OF assms(1,2), of IDKey options] assms(4) by simp
  have len: "(of_nat (length hash) :: 32 word) = KeyLen options"
    "(of_nat (Suc (length hash)) :: 32 word) = KeyLen options + 1"
    using assms(5) by simp_all
  have same: "IDKey (bytes password) (bytes salt) (Time options) (Memory options)
           (Threads options) (KeyLen options) = hash"
    using assms(4) by simp
  show ?thesis
  proof (cases "c = CHR ''$''")
    case True
    then show ?thesis
      unfolding key using key_snoc_dollar [OF assms(1), of IDKey options "bytes salt" hash]
      by simp
  next
    case False
    show ?thesis
      unfolding key key_snoc_other [OF False assms(1)] DecodeBase64String_snoc
      using False by (simp add: len same ac_simps)
  qed
qed

theorem trailing_character_witness:
  "''password'' \<noteq> [] \<and> ''salt'' \<noteq> [] \<and>
   HashPassword test_IDKey ''password'' ''salt'' DefaultOptions = Inr test_key \<and>
   test_hash = test_IDKey (bytes ''password'') (bytes ''salt'') (Time DefaultOptions)
     (Memory DefaultOptions) (Threads DefaultOptions) (KeyLen DefaultOptions) \<and>
   length test_hash = unat (KeyLen DefaultOptions) \<and>
   VerifyPassword test_IDKey ''password'' (test_key @ ''$'') = Some ErrInvalidKeyLength \<and>
   VerifyPassword test_IDKey ''password'' (test_key @ [CHR 0x0D]) = None \<and>
   VerifyPassword test_IDKey ''password'' (test_key @ ''='') = Some CorruptInputError"
proof -
  have ne: "''password'' \<noteq> []" "''salt'' \<noteq> []" by simp_all
  have hash: "test_hash = test_IDKey (bytes ''password'') (bytes ''salt'') (Time DefaultOptions)
     (Memory DefaultOptions) (Threads DefaultOptions) (KeyLen DefaultOptions)"
    using test_IDKey_test_hash by (simp add: DefaultOptions_def)
  have len: "length test_hash = unat (KeyLen DefaultOptions)"
    by (simp add: length_test_hash DefaultOptions_def)
  note inst = trailing_character [OF ne HashPassword_test_key hash len]
  have eq: "decodeMap (CHR ''='') = 0xFF"
    by (simp add: decodeMap_def encodeURL_def)
  show ?thesis
    using inst [of "CHR ''$''"] inst [of "CHR 0x0D"] inst [of "CHR ''=''"] ne
      HashPassword_test_key hash len eq
    by simp
qed

text \<open>
  Claim C5, as the specification states it, fails: the credential string of the tests
  followed by a line feed verifies.
\<close>

theorem trailing_newline_verifies:
  "HashPassword test_IDKey ''password'' ''salt'' DefaultOptions = Inr test_key \<and>
   VerifyPassword test_IDKey ''password'' (test_key @ [CHR 0x0A]) = None"
proof -
  have s: "Split (test_key @ [CHR 0x0A]) (CHR ''$'') =
     [[], ''argon2id'', ''v=19'', ''m=65536,t=1,p=4'', ''c2FsdA'',
      ''OWwmnKFemKE2ILjM60j1so1oRXDFJYqvOiYlZTByvuU'' @ [CHR 0x0A]]"
    by (simp add: Split_def test_key_def)
  have h: "DecodeBase64String (''OWwmnKFemKE2ILjM60j1so1oRXDFJYqvOiYlZTByvuU'' @ [CHR 0x0A]) =
     Inr test_hash"
    by code_simp
  have ne: "''password'' \<noteq> []" by simp
  have "VerifyPassword test_IDKey ''password'' (test_key @ [CHR 0x0A]) = None"
    unfolding VerifyPassword_six [OF ne s] Sscanf_version_v19 Sscanf_params_test
      DecodeBase64String_salt h
    by (simp add: length_test_hash test_IDKey_test_hash)
  with HashPassword_test_key show ?thesis by simp
qed

end
